theory Spec2Isabelle
  imports Main "HOL-Library.AList" "HOL-Library.Char_ord" "HOL-Library.List_Lexorder"
begin

section \<open>Values exchanged with the store\<close>

text \<open>
  A reply of the client library is one of: nil, an integer, a simple string, a bulk
  string (\<open>[]byte\<close>), an array (\<open>[]interface{}\<close>) or an error reply. Go strings and byte
  slices are both modelled as \<open>string\<close> (a list of bytes).
\<close>

datatype reply =
    RNil
  | RInt int
  | RStatus string
  | RBulk string
  | RArr "reply list"
  | RErr string

text \<open>
  Errors are values. The decoding errors keep the data their message prints (the index
  or the length); \<open>Wrap ctx e\<close> is \<open>fmt.Errorf("ctx: %w", e)\<close>.
\<close>

datatype err =
    ErrNil
  | ErrMsg string
  | ErrUnexpectedType string
  | ErrInvalidKeyType string
  | ErrInvalidMode string
  | ErrIKey
  | ErrKeyInfo0
  | ErrKeyInfo1
  | ErrIID
  | ErrIdInfo0
  | ErrIdInfo1
  | ErrOddValues nat
  | ErrKeyNotBulk nat
  | ErrValueNotBulk nat
  | ErrNoKeyValue
  | Wrap string err

text \<open>A run-time panic ends the whole process; it is not an error value.\<close>

datatype panic =
    IndexOutOfRange int nat
  | NilDereference
  | NonPositiveInterval

datatype 'a outcome =
    Returns 'a
  | Panics panic

section \<open>Records\<close>

datatype operation = OperationCreate | OperationUpdate | OperationDelete | OperationSnapshot

text \<open>
  The record of the pipeline. The payload type is a parameter: the source attaches the
  map it re-encodes the fields from, the destination receives a value of the interface
  \<open>opencdc.Data\<close>. The creation timestamp of the metadata depends on the wall clock and
  on nothing the properties below speak about; it is left out, the \<open>key\<close> entry is
  kept.
\<close>

record 'd opencdc_record =
  Position :: string
  Operation :: operation
  Metadata :: "(string \<times> string) list"
  Key :: string
  Payload_After :: 'd

text \<open>
  \<open>json.Marshal\<close> of a \<open>map[string]string\<close> works in two stages. It sorts the entries of
  the map on their keys, compared as raw bytes; then it writes an object with one
  member for each entry, in that order, writing each key and each value as a JSON
  string literal. The writing of a string literal belongs to \<open>encoding/json\<close>: it
  replaces bytes that are not valid UTF-8 and escapes characters, so two keys that
  differ as raw bytes can be written as the same member name, and the names written
  need not be in sorted order.

  The payload of a source record is kept after the first stage: \<open>JSONObject\<close> holds the
  entries of the map, raw, in the order in which their members are written. The second
  stage takes the writing of a string literal as its parameter \<open>lit\<close>:
  \<open>member_names\<close> are the names written and \<open>json_bytes\<close> is the text written.
\<close>

datatype json_object = JSONObject "(string \<times> string) list"

type_synonym source_record = "json_object opencdc_record"

definition json_Marshal :: "(string \<times> string) list \<Rightarrow> json_object" where
  "json_Marshal m = JSONObject (sort_key fst m)"

definition member_names :: "(string \<Rightarrow> string) \<Rightarrow> json_object \<Rightarrow> string list" where
  "member_names lit obj = (case obj of JSONObject entries \<Rightarrow> map (\<lambda>e. lit (fst e)) entries)"

fun json_members :: "(string \<Rightarrow> string) \<Rightarrow> (string \<times> string) list \<Rightarrow> string" where
  "json_members lit [] = []"
| "json_members lit [e] = lit (fst e) @ '':'' @ lit (snd e)"
| "json_members lit (e # rest) = lit (fst e) @ '':'' @ lit (snd e) @ '','' @ json_members lit rest"

definition json_bytes :: "(string \<Rightarrow> string) \<Rightarrow> json_object \<Rightarrow> string" where
  "json_bytes lit obj = (case obj of JSONObject entries \<Rightarrow> ''{'' @ json_members lit entries @ ''}'')"

text \<open>
  A value of the interface \<open>opencdc.Data\<close>, as the destination receives it in
  \<open>Payload.After\<close>: nil (a record without an after-payload, such as the zero record or
  a delete record), or raw or structured data, kept as the bytes its method \<open>Bytes\<close>
  returns. Calling \<open>Bytes\<close> on the nil interface value is a nil dereference.
\<close>

datatype data = NilData | Data string

definition Bytes :: "data \<Rightarrow> string outcome" where
  "Bytes payload = (case payload of NilData \<Rightarrow> Panics NilDereference | Data b \<Rightarrow> Returns b)"

definition NewRecordCreate ::
  "string \<Rightarrow> (string \<times> string) list \<Rightarrow> string \<Rightarrow> 'd \<Rightarrow> 'd opencdc_record" where
  "NewRecordCreate position metadata key payload =
     \<lparr>Position = position, Operation = OperationCreate, Metadata = metadata,
      Key = key, Payload_After = payload\<rparr>"

section \<open>Decoding a read response\<close>

text \<open>
  \<open>arrInterfaceToMap\<close>: the Go map is an association list with distinct keys;
  \<open>m[key] = value\<close> is \<open>AList.update\<close>. The loop advances two elements at a time and
  carries the index for the error messages.
\<close>

fun arrInterfaceToMap_loop ::
  "nat \<Rightarrow> reply list \<Rightarrow> (string \<times> string) list \<Rightarrow> err + (string \<times> string) list" where
  "arrInterfaceToMap_loop i (k # v # rest) m =
     (case k of
        RBulk key \<Rightarrow>
          (case v of
             RBulk val \<Rightarrow> arrInterfaceToMap_loop (i + 2) rest (AList.update key val m)
           | _ \<Rightarrow> Inl (ErrValueNotBulk (i + 1)))
      | _ \<Rightarrow> Inl (ErrKeyNotBulk i))"
| "arrInterfaceToMap_loop i _ m = Inr m"

definition arrInterfaceToMap :: "reply list \<Rightarrow> err + (string \<times> string) list" where
  "arrInterfaceToMap values =
     (if length values mod 2 \<noteq> 0 then Inl (ErrOddValues (length values))
      else arrInterfaceToMap_loop 0 values [])"

text \<open>
  \<open>parseKeyData\<close> and \<open>parsePositionData\<close> assert the dynamic type of an element and
  index positions 0 and 1 of the array without checking its length: a short array
  panics, a wrong type is an error.
\<close>

definition parseKeyData :: "reply \<Rightarrow> (err + string \<times> reply list) outcome" where
  "parseKeyData d =
     (case d of
        RArr keyInfo \<Rightarrow>
          (case keyInfo of
             [] \<Rightarrow> Panics (IndexOutOfRange 0 0)
           | k0 # rest \<Rightarrow>
               (case k0 of
                  RBulk key \<Rightarrow>
                    (case rest of
                       [] \<Rightarrow> Panics (IndexOutOfRange 1 1)
                     | k1 # _ \<Rightarrow>
                         (case k1 of
                            RArr idList \<Rightarrow> Returns (Inr (key, idList))
                          | _ \<Rightarrow> Returns (Inl ErrKeyInfo1)))
                | _ \<Rightarrow> Returns (Inl ErrKeyInfo0)))
      | _ \<Rightarrow> Returns (Inl ErrIKey))"

definition parsePositionData :: "reply \<Rightarrow> (err + string \<times> reply list) outcome" where
  "parsePositionData i =
     (case i of
        RArr idInfo \<Rightarrow>
          (case idInfo of
             [] \<Rightarrow> Panics (IndexOutOfRange 0 0)
           | i0 # rest \<Rightarrow>
               (case i0 of
                  RBulk position \<Rightarrow>
                    (case rest of
                       [] \<Rightarrow> Panics (IndexOutOfRange 1 1)
                     | i1 # _ \<Rightarrow>
                         (case i1 of
                            RArr fieldList \<Rightarrow> Returns (Inr (position, fieldList))
                          | _ \<Rightarrow> Returns (Inl ErrIdInfo1)))
                | _ \<Rightarrow> Returns (Inl ErrIdInfo0)))
      | _ \<Rightarrow> Returns (Inl ErrIID))"

text \<open>
  \<open>toRecords\<close>: the inner loop over the entries of one key and the outer loop over the
  keys, both appending to \<open>records\<close>. A parse error returns \<open>nil\<close> with the error, a
  field-list error returns the records decoded so far with the error.
  \<open>json.Marshal\<close> of a \<open>map[string]string\<close> has no failing case, so its error branch
  is not a branch of the model; \<open>metadata.SetCreatedAt(getTimeFromPosition(...))\<close> has
  none either (a position without a leading number falls back to the wall clock) and
  writes the timestamp entry only, which the records of the model do not carry.
\<close>

fun toRecords_ids ::
  "string \<Rightarrow> reply list \<Rightarrow> source_record list \<Rightarrow> (source_record list \<times> err option) outcome" where
  "toRecords_ids key [] records = Returns (records, None)"
| "toRecords_ids key (iID # rest) records =
     (case parsePositionData iID of
        Panics p \<Rightarrow> Panics p
      | Returns (Inl e) \<Rightarrow> Returns ([], Some e)
      | Returns (Inr (position, fieldList)) \<Rightarrow>
          (case arrInterfaceToMap fieldList of
             Inl e \<Rightarrow> Returns (records, Some (Wrap ''error converting the []interface{} to map'' e))
           | Inr rMap \<Rightarrow>
               toRecords_ids key rest
                 (records @ [NewRecordCreate position [(''key'', key)] key (json_Marshal rMap)])))"

fun toRecords_keys ::
  "reply list \<Rightarrow> source_record list \<Rightarrow> (source_record list \<times> err option) outcome" where
  "toRecords_keys [] records = Returns (records, None)"
| "toRecords_keys (iKey # rest) records =
     (case parseKeyData iKey of
        Panics p \<Rightarrow> Panics p
      | Returns (Inl e) \<Rightarrow> Returns ([], Some e)
      | Returns (Inr (key, idList)) \<Rightarrow>
          (case toRecords_ids key idList records of
             Returns (records', None) \<Rightarrow> toRecords_keys rest records'
           | other \<Rightarrow> other))"

definition toRecords :: "reply list \<Rightarrow> (source_record list \<times> err option) outcome" where
  "toRecords resp = toRecords_keys resp []"


section \<open>The connection\<close>

text \<open>
  A command is its name and its arguments. \<open>AList\<close> is a slice passed as one single
  argument.
\<close>

datatype jvalue =
    JNull
  | JBool bool
  | JNumber string
  | JString string
  | JArray "jvalue list"
  | JObject "(string \<times> jvalue) list"

datatype arg =
    AStr string
  | AInt int
  | AJSON jvalue
  | AList "arg list"

type_synonym command = "string \<times> arg list"

text \<open>
  The connection is an open system: the reply to the \<open>n\<close>-th command is \<open>replies n\<close>,
  whatever the command is, so that every behaviour of a server and of the transport
  is some connection. \<open>sent\<close> logs every command issued, with whether it was answered
  without error. \<open>with_context\<close> says whether the connection implements
  \<open>redis.ConnWithContext\<close>.
\<close>

record conn =
  replies :: "nat \<Rightarrow> err + reply"
  sent :: "(command \<times> bool) list"
  with_context :: bool
  close_results :: "nat \<Rightarrow> err option"
  close_calls :: nat

definition conn_Do :: "conn \<Rightarrow> string \<Rightarrow> arg list \<Rightarrow> (err + reply) \<times> conn" where
  "conn_Do c cmd args =
     (let r = replies c (length (sent c))
      in (r, c\<lparr>sent := sent c @ [((cmd, args), isl r = False)]\<rparr>))"

definition conn_Close :: "conn \<Rightarrow> err option \<times> conn" where
  "conn_Close c = (close_results c (close_calls c), c\<lparr>close_calls := Suc (close_calls c)\<rparr>)"

text \<open>The reply helpers \<open>redis.String\<close> and \<open>redis.Values\<close> of the client library.\<close>

definition redis_String :: "err + reply \<Rightarrow> err + string" where
  "redis_String r =
     (case r of
        Inl e \<Rightarrow> Inl e
      | Inr rep \<Rightarrow>
          (case rep of
             RBulk b \<Rightarrow> Inr b
           | RStatus s \<Rightarrow> Inr s
           | RNil \<Rightarrow> Inl ErrNil
           | RErr m \<Rightarrow> Inl (ErrMsg m)
           | _ \<Rightarrow> Inl (ErrUnexpectedType ''String'')))"

definition redis_Values :: "err + reply \<Rightarrow> err + reply list" where
  "redis_Values r =
     (case r of
        Inl e \<Rightarrow> Inl e
      | Inr rep \<Rightarrow>
          (case rep of
             RArr xs \<Rightarrow> Inr xs
           | RNil \<Rightarrow> Inl ErrNil
           | RErr m \<Rightarrow> Inl (ErrMsg m)
           | _ \<Rightarrow> Inl (ErrUnexpectedType ''Values'')))"

definition keyTypeNone :: string where
  "keyTypeNone = ''none''"

definition keyTypeStream :: string where
  "keyTypeStream = ''stream''"

section \<open>The termination latch\<close>

text \<open>
  The tomb holds the reason of death: \<open>ErrStillAlive\<close> while alive, afterwards the
  first non-nil reason given to \<open>Kill\<close> (a nil reason is replaced by a later one).
\<close>

datatype tomb = ErrStillAlive | Reason "err option"

definition Alive :: "tomb \<Rightarrow> bool" where
  "Alive t = (t = ErrStillAlive)"

definition Kill :: "tomb \<Rightarrow> err option \<Rightarrow> tomb" where
  "Kill t reason =
     (case t of
        ErrStillAlive \<Rightarrow> Reason reason
      | Reason None \<Rightarrow> Reason reason
      | Reason (Some e) \<Rightarrow> t)"

definition tomb_Err :: "tomb \<Rightarrow> err option" where
  "tomb_Err t = (case t of ErrStillAlive \<Rightarrow> Some (ErrMsg ''tomb: still alive'') | Reason r \<Rightarrow> r)"

section \<open>The stream iterator\<close>

text \<open>
  The two tasks of the iterator run concurrently with the consumer. Each task is
  modelled by the place where it waits: the poll task at its outer \<open>select\<close>, at the
  handoff of a decoded batch, or returned; the flush task at its \<open>select\<close>, inside the
  \<open>range\<close> over a batch with the records still to push, or returned.
\<close>

datatype poll_pc = PollSelect | PollHandoff "source_record list" | PollReturned

datatype flush_pc = FlushSelect | FlushRange "source_record list" | FlushReturned

text \<open>
  The fields of \<open>StreamIterator\<close>, followed by the places of the two tasks. The
  connection object outlives the reference to it: \<open>client_nil\<close> says that \<open>i.client\<close>
  is nil. A channel is the list of the values it holds, oldest first, and whether it
  was closed. The ticker is whether it runs and whether a tick is waiting in its
  channel (\<open>ticker_C\<close>); a tick that waits when the ticker is stopped stays there.
\<close>

record stream_iterator =
  key :: string
  client :: conn
  client_nil :: bool
  tomb :: tomb
  lastID :: string
  recordsPerCall :: int
  pollingInterval :: int
  ticker_running :: bool
  ticker_C :: bool
  caches :: "source_record list list"
  caches_closed :: bool
  buffer :: "source_record list"
  buffer_closed :: bool
  poll_task :: poll_pc
  flush_task :: flush_pc

definition caches_capacity :: nat where
  "caches_capacity = 1"

definition buffer_capacity :: nat where
  "buffer_capacity = 1"

text \<open>
  \<open>NewStreamIterator\<close>: the type of the key is asked first; only then are the ticker,
  the channels and the two tasks created. \<open>time.NewTicker\<close> panics on an interval that
  is not positive.
\<close>

definition NewStreamIterator ::
  "conn \<Rightarrow> string \<Rightarrow> int \<Rightarrow> string \<Rightarrow> ((err + stream_iterator) \<times> conn) outcome" where
  "NewStreamIterator c k interval position =
     (let (r, c') = conn_Do c ''TYPE'' [AStr k]
      in case redis_String r of
           Inl e \<Rightarrow> Returns (Inl (Wrap (''error fetching type of key('' @ k @ '')'') e), c')
         | Inr keyType \<Rightarrow>
             if keyType \<noteq> keyTypeNone \<and> keyType \<noteq> keyTypeStream
             then Returns (Inl (ErrInvalidKeyType keyType), c')
             else if interval \<le> 0 then Panics NonPositiveInterval
             else Returns
               (Inr \<lparr>key = k, client = c', client_nil = False, tomb = ErrStillAlive,
                     lastID = (if position = [] then ''0-0'' else position),
                     recordsPerCall = 1000, pollingInterval = interval,
                     ticker_running = True, ticker_C = False,
                     caches = [], caches_closed = False,
                     buffer = [], buffer_closed = False,
                     poll_task = PollSelect, flush_task = FlushSelect\<rparr>, c'))"

definition HasNext :: "stream_iterator \<Rightarrow> bool" where
  "HasNext i = (length (buffer i) > 0 \<or> \<not> Alive (tomb i))"

text \<open>
  \<open>Stop\<close>: the method call \<open>i.client.Close()\<close> on a nil interface value is a nil
  dereference.
\<close>

definition Stop :: "stream_iterator \<Rightarrow> (err option \<times> stream_iterator) outcome" where
  "Stop i =
     (let i1 = i\<lparr>ticker_running := False,
                 tomb := Kill (tomb i) (Some (ErrMsg ''iterator stopped''))\<rparr>
      in if client_nil i1 then Panics NilDereference
         else (case conn_Close (client i1) of
                 (Some e, c') \<Rightarrow>
                   Returns (Some (Wrap ''error closing the redis client'' e), i1\<lparr>client := c'\<rparr>)
               | (None, c') \<Rightarrow>
                   Returns (None, i1\<lparr>client := c', client_nil := True\<rparr>)))"


section \<open>The tasks of the pipeline, step by step\<close>

text \<open>
  A step of the system is an event: the ticker delivering a tick, one of the cases of a
  \<open>select\<close> of the poll or of the flush task being taken, the consumer receiving from
  the record channel, \<open>Stop\<close> being called, or the context of the tomb being cancelled.
  A step is blocked when the event cannot happen in the state, it crashes the process
  on a panic, and otherwise gives the next state.
\<close>

datatype event =
    TickerFires
  | PollTick
  | PollSend
  | PollDying
  | FlushReceive
  | FlushSend
  | FlushDying
  | NextReceive
  | StopCall
  | ContextDone

datatype 'a step_result =
    Blocked
  | Steps 'a
  | Crashes panic

text \<open>
  A task that returns error \<open>e\<close> kills the tomb with it. The poll task closes \<open>caches\<close>
  on return, the flush task closes \<open>buffer\<close>.
\<close>

definition poll_return :: "stream_iterator \<Rightarrow> err option \<Rightarrow> stream_iterator" where
  "poll_return i e = i\<lparr>caches_closed := True, tomb := Kill (tomb i) e, poll_task := PollReturned\<rparr>"

definition flush_return :: "stream_iterator \<Rightarrow> err option \<Rightarrow> stream_iterator" where
  "flush_return i e = i\<lparr>buffer_closed := True, tomb := Kill (tomb i) e, flush_task := FlushReturned\<rparr>"

text \<open>
  The case of \<open>startIterator\<close> that receives a tick: the bounded read, the decoding,
  and the arrival at the inner \<open>select\<close> with the decoded batch. A nil reply is
  \<open>redis.ErrNil\<close>, on which the task goes back to its \<open>select\<close>.
\<close>

definition poll_tick :: "stream_iterator \<Rightarrow> stream_iterator step_result" where
  "poll_tick i =
     (if poll_task i \<noteq> PollSelect \<or> \<not> ticker_C i then Blocked
      else if client_nil i then Crashes NilDereference
      else
        (let (r, c') = conn_Do (client i) ''XREAD''
                         [AStr ''COUNT'', AInt (recordsPerCall i), AStr ''STREAMS'',
                          AStr (key i), AStr (lastID i)];
             i1 = i\<lparr>ticker_C := False, client := c'\<rparr>
         in case redis_Values r of
              Inl e \<Rightarrow>
                if e = ErrNil then Steps i1
                else Steps (poll_return i1 (Some (Wrap ''error reading data from stream'' e)))
            | Inr resp \<Rightarrow>
                (case toRecords resp of
                   Panics p \<Rightarrow> Crashes p
                 | Returns (records, Some e) \<Rightarrow>
                     Steps (poll_return i1
                              (Some (Wrap ''error converting stream data to records'' e)))
                 | Returns (records, None) \<Rightarrow> Steps (i1\<lparr>poll_task := PollHandoff records\<rparr>))))"

text \<open>
  The case \<open>i.caches <- records\<close>: possible when the channel has room; the batch is in
  the channel when \<open>records[len(records)-1]\<close> is evaluated.
\<close>

definition poll_send :: "stream_iterator \<Rightarrow> stream_iterator step_result" where
  "poll_send i =
     (case poll_task i of
        PollHandoff records \<Rightarrow>
          if length (caches i) < caches_capacity then
            (if records = [] then Crashes (IndexOutOfRange (- 1) 0)
             else Steps (i\<lparr>caches := caches i @ [records],
                           lastID := Position (last records),
                           poll_task := PollSelect\<rparr>))
          else Blocked
      | _ \<Rightarrow> Blocked)"

definition poll_dying :: "stream_iterator \<Rightarrow> stream_iterator step_result" where
  "poll_dying i =
     (if poll_task i \<noteq> PollReturned \<and> \<not> Alive (tomb i)
      then Steps (poll_return i (tomb_Err (tomb i)))
      else Blocked)"

text \<open>
  \<open>flush\<close>: a receive from \<open>caches\<close> gives the oldest batch, or a nil batch once the
  channel is closed and empty; the \<open>range\<close> over an empty batch is over at once.
\<close>

definition flush_range :: "source_record list \<Rightarrow> flush_pc" where
  "flush_range cache = (if cache = [] then FlushSelect else FlushRange cache)"

definition flush_receive :: "stream_iterator \<Rightarrow> stream_iterator step_result" where
  "flush_receive i =
     (if flush_task i \<noteq> FlushSelect then Blocked
      else (case caches i of
              cache # rest \<Rightarrow> Steps (i\<lparr>caches := rest, flush_task := flush_range cache\<rparr>)
            | [] \<Rightarrow> if caches_closed i then Steps i else Blocked))"

definition flush_send :: "stream_iterator \<Rightarrow> stream_iterator step_result" where
  "flush_send i =
     (case flush_task i of
        FlushRange (r # rest) \<Rightarrow>
          if length (buffer i) < buffer_capacity
          then Steps (i\<lparr>buffer := buffer i @ [r], flush_task := flush_range rest\<rparr>)
          else Blocked
      | _ \<Rightarrow> Blocked)"

definition flush_dying :: "stream_iterator \<Rightarrow> stream_iterator step_result" where
  "flush_dying i =
     (if flush_task i \<noteq> FlushReturned \<and> \<not> Alive (tomb i)
      then Steps (flush_return i (tomb_Err (tomb i)))
      else Blocked)"

text \<open>The case \<open>rec := <-i.buffer\<close> of \<open>Next\<close>, as far as it changes the state.\<close>

definition next_receive :: "stream_iterator \<Rightarrow> stream_iterator step_result" where
  "next_receive i =
     (case buffer i of
        r # rest \<Rightarrow> Steps (i\<lparr>buffer := rest\<rparr>)
      | [] \<Rightarrow> if buffer_closed i then Steps i else Blocked)"

definition step :: "event \<Rightarrow> stream_iterator \<Rightarrow> stream_iterator step_result" where
  "step ev i =
     (case ev of
        TickerFires \<Rightarrow> if ticker_running i then Steps (i\<lparr>ticker_C := True\<rparr>) else Blocked
      | PollTick \<Rightarrow> poll_tick i
      | PollSend \<Rightarrow> poll_send i
      | PollDying \<Rightarrow> poll_dying i
      | FlushReceive \<Rightarrow> flush_receive i
      | FlushSend \<Rightarrow> flush_send i
      | FlushDying \<Rightarrow> flush_dying i
      | NextReceive \<Rightarrow> next_receive i
      | StopCall \<Rightarrow> (case Stop i of Panics p \<Rightarrow> Crashes p | Returns (e, i') \<Rightarrow> Steps i')
      | ContextDone \<Rightarrow> Steps (i\<lparr>tomb := Kill (tomb i) (Some (ErrMsg ''context canceled''))\<rparr>))"

fun run :: "event list \<Rightarrow> stream_iterator \<Rightarrow> stream_iterator step_result" where
  "run [] i = Steps i"
| "run (ev # evs) i =
     (case step ev i of
        Steps i' \<Rightarrow> run evs i'
      | Blocked \<Rightarrow> Blocked
      | Crashes p \<Rightarrow> Crashes p)"

text \<open>
  The decoded batches that exist and are not yet delivered: the one the poll task holds
  at the handoff, those in the batch channel, and the rest of the one the flush task
  is pushing.
\<close>

definition poll_holds :: "stream_iterator \<Rightarrow> source_record list list" where
  "poll_holds i = (case poll_task i of PollHandoff records \<Rightarrow> [records] | _ \<Rightarrow> [])"

definition flush_holds :: "stream_iterator \<Rightarrow> source_record list list" where
  "flush_holds i = (case flush_task i of FlushRange cache \<Rightarrow> [cache] | _ \<Rightarrow> [])"

definition in_flight :: "stream_iterator \<Rightarrow> source_record list list" where
  "in_flight i = flush_holds i @ caches i @ poll_holds i"


section \<open>The destination\<close>

text \<open>
  The operating mode is a string of the configuration; the two modes the connector
  documents are \<open>pubsub\<close> and \<open>stream\<close>. Of the configuration, the key and the mode
  are what the destination's code reads after \<open>Open\<close>.
\<close>

definition ModePubSub :: string where
  "ModePubSub = ''pubsub''"

definition ModeStream :: string where
  "ModeStream = ''stream''"

record config =
  RedisKey :: string
  Mode :: string

record destination =
  config :: config
  dest_client :: conn
  dest_client_nil :: bool

text \<open>
  \<open>validateKey\<close> asks the type of the key on the connection it is given, which \<open>Open\<close>
  has stored in the destination.
\<close>

definition validateKey :: "destination \<Rightarrow> err option \<times> destination" where
  "validateKey d =
     (if Mode (config d) = ModePubSub then (None, d)
      else if Mode (config d) = ModeStream then
        (let (r, c') = conn_Do (dest_client d) ''TYPE'' [AStr (RedisKey (config d))];
             d' = d\<lparr>dest_client := c'\<rparr>
         in case redis_String r of
              Inl e \<Rightarrow>
                (Some (Wrap (''error fetching type of key('' @ RedisKey (config d) @ '')'') e), d')
            | Inr keyType \<Rightarrow>
                if keyType \<noteq> keyTypeNone \<and> keyType \<noteq> keyTypeStream
                then (Some (ErrInvalidKeyType keyType), d')
                else (None, d'))
      else (Some (ErrInvalidMode (Mode (config d))), d))"

text \<open>\<open>Open\<close>, given what dialling the store gave: an error or a connection.\<close>

definition Open :: "destination \<Rightarrow> err + conn \<Rightarrow> err option \<times> destination" where
  "Open d dial =
     (case dial of
        Inl e \<Rightarrow> (Some (Wrap ''failed to connect redis client'' e), d)
      | Inr redisClient \<Rightarrow> validateKey (d\<lparr>dest_client := redisClient, dest_client_nil := False\<rparr>))"

text \<open>
  \<open>doWithCtx\<close>: a connection without context support is given the argument slice as
  one argument.
\<close>

definition doWithCtx ::
  "destination \<Rightarrow> string \<Rightarrow> arg list \<Rightarrow> ((err + reply) \<times> destination) outcome" where
  "doWithCtx d cmd args =
     (if dest_client_nil d then Panics NilDereference
      else
        (let (r, c') = (if with_context (dest_client d) then conn_Do (dest_client d) cmd args
                        else conn_Do (dest_client d) cmd [AList args])
         in Returns (r, d\<lparr>dest_client := c'\<rparr>)))"

text \<open>
  \<open>payloadToStreamArgs\<close>: \<open>payload.Bytes()\<close> comes first. \<open>unmarshal\<close> is
  \<open>json.Unmarshal\<close> into a \<open>map[string]interface{}\<close> followed by the \<open>range\<close> over the
  map, whose order Go leaves open: it gives the members in the order the loop visits
  them.
\<close>

definition payloadToStreamArgs ::
  "(string \<Rightarrow> err + (string \<times> jvalue) list) \<Rightarrow> data \<Rightarrow> (err + arg list) outcome" where
  "payloadToStreamArgs unmarshal payload =
     (case Bytes payload of
        Panics p \<Rightarrow> Panics p
      | Returns b \<Rightarrow>
          (case unmarshal b of
             Inl e \<Rightarrow> Returns (Inl (Wrap ''invalid json received in payload'' e))
           | Inr recMap \<Rightarrow>
               (let keyValArgs = concat (map (\<lambda>(k, v). [AStr k, AJSON v]) recMap)
                in if length keyValArgs = 0 then Returns (Inl ErrNoKeyValue)
                   else Returns (Inr keyValArgs))))"

text \<open>
  \<open>Write\<close>: one loop for each mode, \<open>i\<close> the index of the record; a loop that ends
  without error gives \<open>None\<close>, and \<open>Write\<close> then returns the length of the list. In
  pubsub mode the argument \<open>string(r.Payload.After.Bytes())\<close> is evaluated before the
  command is issued.
\<close>

fun Write_pubsub ::
  "nat \<Rightarrow> data opencdc_record list \<Rightarrow> destination \<Rightarrow> ((nat \<times> err) option \<times> destination) outcome" where
  "Write_pubsub i [] d = Returns (None, d)"
| "Write_pubsub i (r # rest) d =
     (case Bytes (Payload_After r) of
        Panics p \<Rightarrow> Panics p
      | Returns b \<Rightarrow>
          (case doWithCtx d ''PUBLISH'' [AStr (RedisKey (config d)), AStr b] of
             Panics p \<Rightarrow> Panics p
           | Returns (Inl e, d') \<Rightarrow>
               Returns (Some (i, Wrap (''error publishing message to channel(''
                                        @ RedisKey (config d) @ '')'') e), d')
           | Returns (Inr x, d') \<Rightarrow> Write_pubsub (Suc i) rest d'))"

fun Write_stream ::
  "(string \<Rightarrow> err + (string \<times> jvalue) list) \<Rightarrow> nat \<Rightarrow> data opencdc_record list \<Rightarrow> destination
   \<Rightarrow> ((nat \<times> err) option \<times> destination) outcome" where
  "Write_stream unmarshal i [] d = Returns (None, d)"
| "Write_stream unmarshal i (r # rest) d =
     (case payloadToStreamArgs unmarshal (Payload_After r) of
        Panics p \<Rightarrow> Panics p
      | Returns (Inl e) \<Rightarrow> Returns (Some (i, Wrap ''invalid payload'' e), d)
      | Returns (Inr keyValArgs) \<Rightarrow>
          if dest_client_nil d then Panics NilDereference
          else
            (case conn_Do (dest_client d) ''XADD''
                    ([AStr (RedisKey (config d)), AStr ''*''] @ keyValArgs) of
               (Inl e, c') \<Rightarrow>
                 Returns (Some (i, Wrap (''error streaming message to key(''
                                          @ RedisKey (config d) @ '')'') e),
                          d\<lparr>dest_client := c'\<rparr>)
             | (Inr x, c') \<Rightarrow> Write_stream unmarshal (Suc i) rest (d\<lparr>dest_client := c'\<rparr>)))"

definition Write ::
  "(string \<Rightarrow> err + (string \<times> jvalue) list) \<Rightarrow> destination \<Rightarrow> data opencdc_record list
   \<Rightarrow> ((nat \<times> err option) \<times> destination) outcome" where
  "Write unmarshal d rec =
     (if Mode (config d) = ModePubSub then
        (case Write_pubsub 0 rec d of
           Panics p \<Rightarrow> Panics p
         | Returns (Some (i, e), d') \<Rightarrow> Returns ((i, Some e), d')
         | Returns (None, d') \<Rightarrow> Returns ((length rec, None), d'))
      else if Mode (config d) = ModeStream then
        (case Write_stream unmarshal 0 rec d of
           Panics p \<Rightarrow> Panics p
         | Returns (Some (i, e), d') \<Rightarrow> Returns ((i, Some e), d')
         | Returns (None, d') \<Rightarrow> Returns ((length rec, None), d'))
      else Returns ((0, Some (ErrInvalidMode (Mode (config d)))), d))"

text \<open>The command \<open>Write\<close> issues for a record that has a payload, in each mode.\<close>

definition publish_command :: "destination \<Rightarrow> data opencdc_record \<Rightarrow> command" where
  "publish_command d r =
     (let args = [AStr (RedisKey (config d)),
                  AStr (case Payload_After r of Data b \<Rightarrow> b | NilData \<Rightarrow> [])]
      in (''PUBLISH'', if with_context (dest_client d) then args else [AList args]))"

definition xadd_command ::
  "(string \<Rightarrow> err + (string \<times> jvalue) list) \<Rightarrow> destination \<Rightarrow> data opencdc_record \<Rightarrow> command" where
  "xadd_command unmarshal d r =
     (''XADD'', [AStr (RedisKey (config d)), AStr ''*'']
                @ (case payloadToStreamArgs unmarshal (Payload_After r) of
                     Returns (Inr keyValArgs) \<Rightarrow> keyValArgs | other \<Rightarrow> []))"

definition write_command ::
  "(string \<Rightarrow> err + (string \<times> jvalue) list) \<Rightarrow> destination \<Rightarrow> data opencdc_record \<Rightarrow> command" where
  "write_command unmarshal d r =
     (if Mode (config d) = ModePubSub then publish_command d r else xadd_command unmarshal d r)"

text \<open>
  Whether the payload of a record gives the arguments of a command in stream mode, and
  whether the record at index \<open>j\<close> of a batch applies: it has a payload, in stream
  mode the payload gives arguments, and the reply to its command, the \<open>j\<close>-th the batch
  issues, is not an error.
\<close>

definition gives_args :: "(string \<Rightarrow> err + (string \<times> jvalue) list) \<Rightarrow> data \<Rightarrow> bool" where
  "gives_args unmarshal payload =
     (case payloadToStreamArgs unmarshal payload of Returns (Inr keyValArgs) \<Rightarrow> True | other \<Rightarrow> False)"

definition record_applies ::
  "(string \<Rightarrow> err + (string \<times> jvalue) list) \<Rightarrow> destination \<Rightarrow> data opencdc_record list \<Rightarrow> nat \<Rightarrow> bool" where
  "record_applies unmarshal d rec j =
     (Payload_After (rec ! j) \<noteq> NilData
      \<and> (Mode (config d) = ModePubSub \<or> gives_args unmarshal (Payload_After (rec ! j)))
      \<and> isl (replies (dest_client d) (length (sent (dest_client d)) + j)) = False)"

section \<open>Read responses and positions, as the store defines them\<close>

text \<open>
  The wire form of a read response: for each log its key and its entries, each entry
  its identifier and its field list; a field list of name and value pairs alternates
  the names and the values.
\<close>

definition fields_reply :: "(string \<times> string) list \<Rightarrow> reply list" where
  "fields_reply ps = concat (map (\<lambda>(n, v). [RBulk n, RBulk v]) ps)"

definition entry_reply :: "string \<times> reply list \<Rightarrow> reply" where
  "entry_reply e = RArr [RBulk (fst e), RArr (snd e)]"

definition log_reply :: "string \<times> (string \<times> reply list) list \<Rightarrow> reply" where
  "log_reply l = RArr [RBulk (fst l), RArr (map entry_reply (snd l))]"

definition xread_reply :: "(string \<times> (string \<times> reply list) list) list \<Rightarrow> reply list" where
  "xread_reply resp = map log_reply resp"

text \<open>The entries of a response in their order, each with the key of its log.\<close>

definition entries_of ::
  "(string \<times> (string \<times> reply list) list) list \<Rightarrow> (string \<times> string \<times> reply list) list" where
  "entries_of resp = concat (map (\<lambda>l. map (\<lambda>e. (fst l, e)) (snd l)) resp)"

fun is_bulk :: "reply \<Rightarrow> bool" where
  "is_bulk (RBulk b) = True"
| "is_bulk _ = False"

text \<open>
  A well-formed entry: a non-empty identifier and an even-length field list of bulk
  strings.
\<close>

definition well_formed_entry :: "string \<times> string \<times> reply list \<Rightarrow> bool" where
  "well_formed_entry e =
     (case e of (k, ident, fieldList) \<Rightarrow>
        ident \<noteq> [] \<and> length fieldList mod 2 = 0 \<and> list_all is_bulk fieldList)"

text \<open>
  Modelled from the spec: the store's ordering of positions is not code of this
  repository. A position has the wire format \<open><millisecond-timestamp>-<sequence>\<close>, two
  decimal numbers, and positions are ordered by the timestamp, then by the sequence.
\<close>

definition digit_value :: "char \<Rightarrow> nat option" where
  "digit_value c =
     (if CHR ''0'' \<le> c \<and> c \<le> CHR ''9'' then Some (of_char c - of_char (CHR ''0'')) else None)"

fun parse_decimal_from :: "nat \<Rightarrow> string \<Rightarrow> nat option" where
  "parse_decimal_from n [] = Some n"
| "parse_decimal_from n (c # cs) =
     (case digit_value c of None \<Rightarrow> None | Some v \<Rightarrow> parse_decimal_from (10 * n + v) cs)"

definition parse_decimal :: "string \<Rightarrow> nat option" where
  "parse_decimal s = (if s = [] then None else parse_decimal_from 0 s)"

definition parse_position :: "string \<Rightarrow> (nat \<times> nat) option" where
  "parse_position s =
     (case dropWhile (\<lambda>c. c \<noteq> CHR ''-'') s of
        [] \<Rightarrow> None
      | dash # sq \<Rightarrow>
          (case (parse_decimal (takeWhile (\<lambda>c. c \<noteq> CHR ''-'') s), parse_decimal sq) of
             (Some ms, Some n) \<Rightarrow> Some (ms, n)
           | _ \<Rightarrow> None))"

definition position_less :: "string \<Rightarrow> string \<Rightarrow> bool" where
  "position_less a b =
     (case (parse_position a, parse_position b) of
        (Some (ms1, n1), Some (ms2, n2)) \<Rightarrow> ms1 < ms2 \<or> (ms1 = ms2 \<and> n1 < n2)
      | _ \<Rightarrow> False)"


text \<open>
  What decoding makes of one entry of a response: whether its field list folds into a
  map, the record it becomes, and the error of the first entry of a list that does not
  fold.
\<close>

definition entry_decodes :: "string \<times> string \<times> reply list \<Rightarrow> bool" where
  "entry_decodes e = (isl (arrInterfaceToMap (snd (snd e))) = False)"

definition entry_record :: "string \<times> string \<times> reply list \<Rightarrow> source_record" where
  "entry_record e =
     (case e of (k, ident, fieldList) \<Rightarrow>
        NewRecordCreate ident [(''key'', k)] k
          (json_Marshal (case arrInterfaceToMap fieldList of Inr rMap \<Rightarrow> rMap | Inl x \<Rightarrow> [])))"

definition first_error :: "(string \<times> string \<times> reply list) list \<Rightarrow> err option" where
  "first_error es =
     (case es of
        [] \<Rightarrow> None
      | e # rest \<Rightarrow>
          (case arrInterfaceToMap (snd (snd e)) of
             Inl x \<Rightarrow> Some (Wrap ''error converting the []interface{} to map'' x)
           | Inr m \<Rightarrow> None))"

section \<open>Concrete connections and iterators\<close>

text \<open>
  A store that holds the log \<open>orders\<close>: it answers the type query with \<open>stream\<close>, the
  first read with two entries, every later read with one more entry.
\<close>

definition orders_conn :: conn where
  "orders_conn =
     \<lparr>replies = (\<lambda>n.
         if n = 0 then Inr (RStatus ''stream'')
         else if n = 1 then
           Inr (RArr (xread_reply [(''orders'', [(''1-1'', fields_reply [(''item'', ''tea'')]),
                                                 (''1-2'', fields_reply [(''item'', ''milk'')])])]))
         else if n = 2 then
           Inr (RArr (xread_reply [(''orders'', [(''1-3'', fields_reply [(''item'', ''rice'')])])]))
         else
           Inr (RArr (xread_reply [(''orders'', [(''1-4'', fields_reply [(''item'', ''salt'')])])]))),
       sent = [], with_context = True, close_results = (\<lambda>n. None), close_calls = 0\<rparr>"

definition orders_iterator :: stream_iterator where
  "orders_iterator =
     \<lparr>key = ''orders'', client = orders_conn\<lparr>sent := [((''TYPE'', [AStr ''orders'']), True)]\<rparr>,
      client_nil = False, tomb = ErrStillAlive, lastID = ''0-0'',
      recordsPerCall = 1000, pollingInterval = 1000000000,
      ticker_running = True, ticker_C = False,
      caches = [], caches_closed = False, buffer = [], buffer_closed = False,
      poll_task = PollSelect, flush_task = FlushSelect\<rparr>"

text \<open>
  An iterator whose cursor is \<open>5-0\<close>, on a connection that answers a read with one
  entry at \<open>1-0\<close>; and an iterator on a connection that answers a read with the log
  and no entry.
\<close>

definition stale_conn :: conn where
  "stale_conn =
     \<lparr>replies = (\<lambda>n. Inr (RArr (xread_reply
                   [(''orders'', [(''1-0'', fields_reply [(''item'', ''tea'')])])]))),
       sent = [], with_context = True, close_results = (\<lambda>n. None), close_calls = 0\<rparr>"

definition stale_iterator :: stream_iterator where
  "stale_iterator = orders_iterator\<lparr>client := stale_conn, lastID := ''5-0'', ticker_C := True\<rparr>"

definition trimmed_conn :: conn where
  "trimmed_conn =
     \<lparr>replies = (\<lambda>n. Inr (RArr (xread_reply [(''orders'', [])]))),
       sent = [], with_context = True, close_results = (\<lambda>n. None), close_calls = 0\<rparr>"

definition trimmed_iterator :: stream_iterator where
  "trimmed_iterator = orders_iterator\<lparr>client := trimmed_conn\<rparr>"

text \<open>
  A store in which the key \<open>orders\<close> holds a string, and a destination configured for
  stream mode on that key.
\<close>

definition string_key_conn :: conn where
  "string_key_conn =
     \<lparr>replies = (\<lambda>n. Inr (RStatus ''string'')),
       sent = [], with_context = True, close_results = (\<lambda>n. None), close_calls = 0\<rparr>"

definition orders_destination :: destination where
  "orders_destination =
     \<lparr>config = \<lparr>RedisKey = ''orders'', Mode = ''stream''\<rparr>,
      dest_client = orders_conn, dest_client_nil = True\<rparr>"

text \<open>
  A connection that answers every command but its third, which fails; a destination
  in each mode on it; a record with raw bytes as its payload, and a delete record,
  which has no after-payload.
\<close>

definition flaky_conn :: conn where
  "flaky_conn =
     \<lparr>replies = (\<lambda>n. if n = 2 then Inl (ErrMsg ''i/o timeout'') else Inr (RInt 1)),
       sent = [], with_context = True, close_results = (\<lambda>n. None), close_calls = 0\<rparr>"

definition feed_destination :: destination where
  "feed_destination =
     \<lparr>config = \<lparr>RedisKey = ''orders'', Mode = ''pubsub''\<rparr>,
      dest_client = flaky_conn, dest_client_nil = False\<rparr>"

definition log_destination :: destination where
  "log_destination =
     \<lparr>config = \<lparr>RedisKey = ''orders'', Mode = ''stream''\<rparr>,
      dest_client = flaky_conn, dest_client_nil = False\<rparr>"

definition raw_record :: "string \<Rightarrow> data opencdc_record" where
  "raw_record payload = NewRecordCreate [] [] [] (Data payload)"

definition delete_record :: "data opencdc_record" where
  "delete_record =
     \<lparr>Position = [], Operation = OperationDelete, Metadata = [], Key = [],
      Payload_After = NilData\<rparr>"

text \<open>
  The occupancy bound of the two channels, and a schedule in which the consumer does
  not pull while three ticks are served.
\<close>

definition within_capacity :: "stream_iterator \<Rightarrow> bool" where
  "within_capacity i = (length (caches i) \<le> caches_capacity \<and> length (buffer i) \<le> buffer_capacity)"

definition three_ticks :: "event list" where
  "three_ticks =
     [TickerFires, PollTick, PollSend, FlushReceive, FlushSend,
      TickerFires, PollTick, PollSend,
      TickerFires, PollTick]"

section \<open>Decoding: shape of the result\<close>

lemma parsePositionData_entry: "parsePositionData (entry_reply e) = Returns (Inr e)"
  by (simp add: parsePositionData_def entry_reply_def)

lemma parseKeyData_log: "parseKeyData (log_reply l) = Returns (Inr (fst l, map entry_reply (snd l)))"
  by (simp add: parseKeyData_def log_reply_def)

lemma toRecords_ids_shaped:
  "toRecords_ids k (map entry_reply ents) records =
     Returns (records @ map entry_record (takeWhile entry_decodes (map (Pair k) ents)),
              first_error (dropWhile entry_decodes (map (Pair k) ents)))"
proof (induction ents arbitrary: records)
  case Nil
  show ?case by (simp add: first_error_def)
next
  case (Cons e ents)
  obtain ident fl where e: "e = (ident, fl)" by (cases e)
  show ?case
  proof (cases "arrInterfaceToMap fl")
    case (Inl x)
    then show ?thesis
      by (simp add: e parsePositionData_entry entry_decodes_def first_error_def)
  next
    case (Inr m)
    then show ?thesis
      by (simp add: e parsePositionData_entry entry_decodes_def entry_record_def Cons.IH)
  qed
qed

lemma first_error_None: "first_error es = None \<longleftrightarrow> es = [] \<or> entry_decodes (hd es)"
  by (cases es) (auto simp: first_error_def entry_decodes_def split: sum.splits)

lemma first_error_dropWhile_None:
  "first_error (dropWhile entry_decodes es) = None \<longleftrightarrow> dropWhile entry_decodes es = []"
  using hd_dropWhile[of entry_decodes es] by (auto simp: first_error_None)

lemma entries_of_Cons: "entries_of (l # resp) = map (Pair (fst l)) (snd l) @ entries_of resp"
  by (simp add: entries_of_def)

lemma first_error_append: "xs \<noteq> [] \<Longrightarrow> first_error (xs @ ys) = first_error xs"
  by (cases xs) (simp_all add: first_error_def)

lemma toRecords_keys_Cons:
  "toRecords_keys (xread_reply (l # resp)) records =
     (case toRecords_ids (fst l) (map entry_reply (snd l)) records of
        Returns (records', None) \<Rightarrow> toRecords_keys (xread_reply resp) records'
      | other \<Rightarrow> other)"
  unfolding xread_reply_def by (simp add: parseKeyData_log)

lemma toRecords_keys_shaped:
  "toRecords_keys (xread_reply resp) records =
     Returns (records @ map entry_record (takeWhile entry_decodes (entries_of resp)),
              first_error (dropWhile entry_decodes (entries_of resp)))"
proof (induction resp arbitrary: records)
  case Nil
  show ?case by (simp add: xread_reply_def entries_of_def first_error_def)
next
  case (Cons l resp)
  let ?es = "map (Pair (fst l)) (snd l)"
  show ?case
  proof (cases "dropWhile entry_decodes ?es = []")
    case True
    then have all: "\<forall>x\<in>set ?es. entry_decodes x"
      by (simp only: dropWhile_eq_Nil_conv)
    have fe: "first_error (dropWhile entry_decodes ?es) = None"
      unfolding True by (simp add: first_error_def)
    have tw: "takeWhile entry_decodes ?es = ?es"
      using all by (simp only: takeWhile_eq_all_conv)
    have "toRecords_keys (xread_reply (l # resp)) records =
            toRecords_keys (xread_reply resp) (records @ map entry_record ?es)"
      unfolding toRecords_keys_Cons toRecords_ids_shaped fe tw by simp
    also have "\<dots> = Returns ((records @ map entry_record ?es)
                               @ map entry_record (takeWhile entry_decodes (entries_of resp)),
                             first_error (dropWhile entry_decodes (entries_of resp)))"
      by (rule Cons.IH)
    also have "\<dots> = Returns (records @ map entry_record (takeWhile entry_decodes (entries_of (l # resp))),
                             first_error (dropWhile entry_decodes (entries_of (l # resp))))"
      unfolding entries_of_Cons using all
      by (simp only: takeWhile_append2 dropWhile_append2 map_append append_assoc)
    finally show ?thesis .
  next
    case False
    then obtain x where x: "x \<in> set ?es" "\<not> entry_decodes x"
      by (auto simp only: dropWhile_eq_Nil_conv)
    have "first_error (dropWhile entry_decodes ?es) \<noteq> None"
      using False by (simp only: first_error_dropWhile_None not_False_eq_True)
    then obtain w where w: "first_error (dropWhile entry_decodes ?es) = Some w" by auto
    have "toRecords_keys (xread_reply (l # resp)) records =
            Returns (records @ map entry_record (takeWhile entry_decodes ?es), Some w)"
      unfolding toRecords_keys_Cons toRecords_ids_shaped w by simp
    also have "\<dots> = Returns (records @ map entry_record (takeWhile entry_decodes (entries_of (l # resp))),
                             first_error (dropWhile entry_decodes (entries_of (l # resp))))"
      unfolding entries_of_Cons
      by (simp only: takeWhile_append1[of x _ entry_decodes, OF x]
            dropWhile_append1[of x _ entry_decodes, OF x] first_error_append[OF False] w)
    finally show ?thesis .
  qed
qed


lemma loop_well_formed:
  "length fl mod 2 = 0 \<Longrightarrow> list_all is_bulk fl \<Longrightarrow> isl (arrInterfaceToMap_loop i fl m) = False"
proof (induction i fl m rule: arrInterfaceToMap_loop.induct)
  case (1 i k v rest m)
  then show ?case by (cases k; cases v) simp_all
qed simp_all

lemma well_formed_entry_decodes: "well_formed_entry e \<Longrightarrow> entry_decodes e"
  by (cases e) (simp add: well_formed_entry_def entry_decodes_def arrInterfaceToMap_def loop_well_formed)

lemma Position_entry_record: "Position (entry_record e) = fst (snd e)"
  by (cases e) (simp add: entry_record_def NewRecordCreate_def)

lemma Key_entry_record: "Key (entry_record e) = fst e"
  by (cases e) (simp add: entry_record_def NewRecordCreate_def)

section \<open>Decoding a well-formed response\<close>

text \<open>
  Claim C2. A well-formed read response with \<open>N\<close> entries (each a non-empty identifier
  and an even-length field list of bulk strings) decodes without error into exactly
  \<open>N\<close> records, in the order of the entries, the position of each record being the
  identifier of its entry, hence non-empty.
\<close>

theorem toRecords_well_formed:
  assumes wf: "\<forall>e \<in> set (entries_of resp). well_formed_entry e"
  shows "\<exists>recs. toRecords (xread_reply resp) = Returns (recs, None)
           \<and> length recs = length (entries_of resp)
           \<and> map Position recs = map (\<lambda>e. fst (snd e)) (entries_of resp)
           \<and> map Key recs = map fst (entries_of resp)
           \<and> (\<forall>r \<in> set recs. Position r \<noteq> [])"
proof -
  let ?es = "entries_of resp"
  have all: "\<forall>e \<in> set ?es. entry_decodes e"
    using wf well_formed_entry_decodes by blast
  have tw: "takeWhile entry_decodes ?es = ?es"
    using all by (simp only: takeWhile_eq_all_conv)
  have dw: "dropWhile entry_decodes ?es = []"
    using all by (simp only: dropWhile_eq_Nil_conv)
  have res: "toRecords (xread_reply resp) = Returns (map entry_record ?es, None)"
    unfolding toRecords_def toRecords_keys_shaped tw dw by (simp add: first_error_def)
  have pos: "map Position (map entry_record ?es) = map (\<lambda>e. fst (snd e)) ?es"
    by (simp add: Position_entry_record)
  have keys: "map Key (map entry_record ?es) = map fst ?es"
    by (simp add: Key_entry_record)
  have nonempty: "\<forall>r \<in> set (map entry_record ?es). Position r \<noteq> []"
  proof
    fix r assume "r \<in> set (map entry_record ?es)"
    then obtain e where e: "e \<in> set ?es" "r = entry_record e" by auto
    from wf e(1) have "fst (snd e) \<noteq> []"
      by (cases e) (auto simp: well_formed_entry_def)
    then show "Position r \<noteq> []" by (simp add: e(2) Position_entry_record)
  qed
  from res pos keys nonempty show ?thesis by (intro exI[of _ "map entry_record ?es"]) simp
qed

theorem toRecords_well_formed_witness:
  "\<exists>recs. toRecords (xread_reply
             [(''orders'', [(''1-1'', fields_reply [(''a'', ''x'')]), (''1-2'', fields_reply [])]),
              (''audit'', [(''2-7'', fields_reply [(''b'', ''y''), (''c'', ''z'')])])])
           = Returns (recs, None)
         \<and> length recs = 3
         \<and> map Position recs = [''1-1'', ''1-2'', ''2-7'']
         \<and> map Key recs = [''orders'', ''orders'', ''audit'']
         \<and> (\<forall>r \<in> set recs. Position r \<noteq> [])"
  using toRecords_well_formed
    [of "[(''orders'', [(''1-1'', fields_reply [(''a'', ''x'')]), (''1-2'', fields_reply [])]),
          (''audit'', [(''2-7'', fields_reply [(''b'', ''y''), (''c'', ''z'')])])]"]
  by (simp add: entries_of_def well_formed_entry_def fields_reply_def numeral_3_eq_3)

section \<open>Availability of a next record\<close>

text \<open>
  Claim C4. \<open>HasNext\<close> is true exactly when the record channel holds a record or the
  tomb is no longer alive; it is false exactly when the tomb is alive and the channel
  is empty. After a \<open>Stop\<close> that returns, and after the poll task has returned an
  error, it is true.
\<close>

theorem HasNext_iff:
  "HasNext i = (buffer i \<noteq> [] \<or> \<not> Alive (tomb i))
   \<and> ((\<not> HasNext i) = (Alive (tomb i) \<and> buffer i = []))
   \<and> (\<forall>r i'. Stop i = Returns (r, i') \<longrightarrow> HasNext i')
   \<and> (\<forall>e. HasNext (poll_return i (Some e)))"
  by (auto simp: HasNext_def Stop_def poll_return_def Alive_def Kill_def Let_def
           split: tomb.splits option.splits prod.splits if_splits)



theorem HasNext_iff_witness:
  "\<not> HasNext orders_iterator
   \<and> HasNext (orders_iterator\<lparr>buffer := [entry_record (''orders'', ''1-1'', [])]\<rparr>)
   \<and> (case Stop orders_iterator of Returns (r, i') \<Rightarrow> HasNext i' | Panics p \<Rightarrow> False)
   \<and> HasNext (poll_return orders_iterator (Some (ErrMsg ''connection reset'')))"
  using HasNext_iff [of orders_iterator]
        HasNext_iff [of "orders_iterator\<lparr>buffer := [entry_record (''orders'', ''1-1'', [])]\<rparr>"]
  by (simp add: orders_iterator_def orders_conn_def Alive_def Stop_def conn_Close_def Kill_def)

section \<open>Repeated field names\<close>

lemma loop_fields_reply:
  "arrInterfaceToMap_loop i (fields_reply ps) m = Inr (AList.updates (map fst ps) (map snd ps) m)"
  by (induction ps arbitrary: i m) (auto simp: fields_reply_def)

lemma length_fields_reply: "length (fields_reply ps) = 2 * length ps"
  by (induction ps) (auto simp: fields_reply_def)

lemma arrInterfaceToMap_fields_reply:
  "arrInterfaceToMap (fields_reply ps) = Inr (AList.updates (map fst ps) (map snd ps) [])"
  by (simp add: arrInterfaceToMap_def length_fields_reply loop_fields_reply)

lemma map_of_updates_last_wins:
  "map_of (AList.updates (map fst ps) (map snd ps) []) = map_of (rev ps)"
  by (simp add: updates_conv' map_upds_def zip_map_fst_snd)

lemma distinct_updates_empty: "distinct (map fst (AList.updates ks vs []))"
  by (rule distinct_updates) simp

lemma length_update_le: "length (AList.update k v al) \<le> Suc (length al)"
  by (induction al) auto

lemma length_updates_le: "length (AList.updates ks vs al) \<le> length al + length ks"
proof (induction ks arbitrary: vs al)
  case Nil
  show ?case by simp
next
  case (Cons k ks)
  show ?case
  proof (cases vs)
    case Nil
    then show ?thesis by simp
  next
    case (Cons v vs')
    have "length (AList.updates ks vs' (AList.update k v al)) \<le> length (AList.update k v al) + length ks"
      by (rule Cons.IH)
    also have "\<dots> \<le> Suc (length al) + length ks"
      using length_update_le[of k v al] by simp
    finally show ?thesis using Cons by simp
  qed
qed

lemma distinct_map_fst_sort_key:
  "distinct (map fst (sort_key fst m)) = distinct (map fst m)"
  by (simp add: distinct_map)

lemma map_of_sort_key:
  assumes "distinct (map fst m)"
  shows "map_of (sort_key fst m) = map_of m"
  using assms by (simp add: map_of_inject_set distinct_map_fst_sort_key)

lemma sort_key_map_of_unique:
  assumes "distinct (map fst m)" "distinct (map fst m')" "map_of m = map_of m'"
  shows "sort_key fst m = sort_key fst m'"
proof -
  have sets: "set m = set m'"
    using assms by (simp add: map_of_inject_set)
  have inj: "inj_on fst (set (sort_key fst m) \<union> set (sort_key fst m'))"
    using assms(1) sets by (simp add: distinct_map)
  show ?thesis
  proof (rule map_sorted_distinct_set_unique[OF inj])
    show "sorted (map fst (sort_key fst m))" by (rule sorted_sort_key)
    show "distinct (map fst (sort_key fst m))"
      using assms(1) by (simp only: distinct_map_fst_sort_key)
    show "sorted (map fst (sort_key fst m'))" by (rule sorted_sort_key)
    show "distinct (map fst (sort_key fst m'))"
      using assms(2) by (simp only: distinct_map_fst_sort_key)
    show "set (sort_key fst m) = set (sort_key fst m')" using sets by simp
  qed
qed

lemma toRecords_fields_reply:
  "toRecords (xread_reply [(k, [(ident, fields_reply ps)])])
     = Returns ([NewRecordCreate ident [(''key'', k)] k
                   (JSONObject (sort_key fst (AList.updates (map fst ps) (map snd ps) [])))], None)"
proof -
  have "entry_decodes (k, ident, fields_reply ps)"
    by (simp add: entry_decodes_def arrInterfaceToMap_fields_reply)
  then show ?thesis
    unfolding toRecords_def toRecords_keys_shaped
    by (simp add: entries_of_def first_error_def entry_record_def arrInterfaceToMap_fields_reply
          json_Marshal_def)
qed

text \<open>
  Claim C10. A field list in which a name occurs more than once decodes without error:
  the names and values are folded into a map in which the last occurrence of a name
  wins. The payload of the record is \<open>json.Marshal\<close> of that map: one member for each
  entry of the map, written in the sorted order of the raw names. However string
  literals are written, the payload therefore has at most half as many members, and at
  most that many distinct member names, as the field list has elements. The record
  depends on the map only: a field list that folds into the same map, whatever the
  order of its fields and however often a name is repeated in it, gives the same
  record, so neither repeated fields nor the order of the fields survive in the payload.
\<close>

theorem duplicate_fields_last_wins:
  "\<exists>m entries.
       arrInterfaceToMap (fields_reply ps) = Inr m
     \<and> map_of m = map_of (rev ps)
     \<and> distinct (map fst m)
     \<and> length m \<le> length (fields_reply ps) div 2
     \<and> toRecords (xread_reply [(k, [(ident, fields_reply ps)])])
         = Returns ([NewRecordCreate ident [(''key'', k)] k (JSONObject entries)], None)
     \<and> entries = sort_key fst m
     \<and> set entries = set m
     \<and> (\<forall>lit. member_names lit (JSONObject entries) = map lit (map fst entries)
              \<and> length (member_names lit (JSONObject entries)) \<le> length (fields_reply ps) div 2
              \<and> card (set (member_names lit (JSONObject entries))) \<le> length (fields_reply ps) div 2)
     \<and> (\<forall>ps'. map_of (rev ps') = map_of (rev ps) \<longrightarrow>
            toRecords (xread_reply [(k, [(ident, fields_reply ps')])])
              = toRecords (xread_reply [(k, [(ident, fields_reply ps)])]))"
proof -
  let ?m = "AList.updates (map fst ps) (map snd ps) []"
  let ?entries = "sort_key fst ?m"
  have dec: "arrInterfaceToMap (fields_reply ps) = Inr ?m"
    by (rule arrInterfaceToMap_fields_reply)
  have last: "map_of ?m = map_of (rev ps)"
    by (rule map_of_updates_last_wins)
  have dist: "distinct (map fst ?m)"
    by (rule distinct_updates_empty)
  have len: "length ?m \<le> length (fields_reply ps) div 2"
    using length_updates_le[of "map fst ps" "map snd ps" "[]"] by (simp add: length_fields_reply)
  have rec: "toRecords (xread_reply [(k, [(ident, fields_reply ps)])])
               = Returns ([NewRecordCreate ident [(''key'', k)] k (JSONObject ?entries)], None)"
    by (rule toRecords_fields_reply)
  have names: "\<forall>lit. member_names lit (JSONObject ?entries) = map lit (map fst ?entries)
              \<and> length (member_names lit (JSONObject ?entries)) \<le> length (fields_reply ps) div 2
              \<and> card (set (member_names lit (JSONObject ?entries))) \<le> length (fields_reply ps) div 2"
  proof (intro allI conjI)
    fix lit
    show n: "member_names lit (JSONObject ?entries) = map lit (map fst ?entries)"
      by (simp add: member_names_def)
    show l: "length (member_names lit (JSONObject ?entries)) \<le> length (fields_reply ps) div 2"
      using len by (simp add: member_names_def)
    have "card (set (member_names lit (JSONObject ?entries)))
            \<le> length (member_names lit (JSONObject ?entries))"
      by (rule card_length)
    with l show "card (set (member_names lit (JSONObject ?entries))) \<le> length (fields_reply ps) div 2"
      by simp
  qed
  have same: "\<forall>ps'. map_of (rev ps') = map_of (rev ps) \<longrightarrow>
            toRecords (xread_reply [(k, [(ident, fields_reply ps')])])
              = toRecords (xread_reply [(k, [(ident, fields_reply ps)])])"
  proof (intro allI impI)
    fix ps'
    assume eq: "map_of (rev ps') = map_of (rev ps)"
    let ?m' = "AList.updates (map fst ps') (map snd ps') []"
    have "map_of ?m' = map_of ?m"
      using eq by (simp only: map_of_updates_last_wins)
    then have "sort_key fst ?m' = sort_key fst ?m"
      using distinct_updates_empty distinct_updates_empty by (rule sort_key_map_of_unique[rotated 2])
    then show "toRecords (xread_reply [(k, [(ident, fields_reply ps')])])
              = toRecords (xread_reply [(k, [(ident, fields_reply ps)])])"
      by (simp only: toRecords_fields_reply)
  qed
  have sets: "set ?entries = set ?m" by simp
  from dec last dist len rec sets names same show ?thesis by blast
qed

theorem duplicate_fields_last_wins_witness:
  "toRecords (xread_reply [(''orders'', [(''1-1'', fields_reply [(''b'', ''1''), (''a'', ''2''), (''b'', ''3'')])])])
     = Returns ([NewRecordCreate ''1-1'' [(''key'', ''orders'')] ''orders''
                   (JSONObject [(''a'', ''2''), (''b'', ''3'')])], None)
   \<and> arrInterfaceToMap (fields_reply [(''b'', ''1''), (''a'', ''2''), (''b'', ''3'')])
       = Inr [(''b'', ''3''), (''a'', ''2'')]
   \<and> map_of (rev [(''a'', ''2''), (''b'', ''3'')]) = map_of (rev [(''b'', ''1''), (''a'', ''2''), (''b'', ''3'')])
   \<and> toRecords (xread_reply [(''orders'', [(''1-1'', fields_reply [(''a'', ''2''), (''b'', ''3'')])])])
     = toRecords (xread_reply [(''orders'', [(''1-1'', fields_reply [(''b'', ''1''), (''a'', ''2''), (''b'', ''3'')])])])"
proof -
  have same_map: "map_of (rev [(''a'', ''2''), (''b'', ''3'')])
                    = map_of (rev [(''b'', ''1''), (''a'', ''2''), (''b'', ''3'')])"
    by (auto simp: fun_eq_iff)
  from duplicate_fields_last_wins
         [of "[(''b'', ''1''), (''a'', ''2''), (''b'', ''3'')]" "''orders''" "''1-1''"]
  have same_record:
    "toRecords (xread_reply [(''orders'', [(''1-1'', fields_reply [(''a'', ''2''), (''b'', ''3'')])])])
       = toRecords (xread_reply [(''orders'', [(''1-1'', fields_reply [(''b'', ''1''), (''a'', ''2''), (''b'', ''3'')])])])"
    using same_map by blast
  have computed:
    "toRecords (xread_reply [(''orders'', [(''1-1'', fields_reply [(''b'', ''1''), (''a'', ''2''), (''b'', ''3'')])])])
       = Returns ([NewRecordCreate ''1-1'' [(''key'', ''orders'')] ''orders''
                     (JSONObject [(''a'', ''2''), (''b'', ''3'')])], None)
     \<and> arrInterfaceToMap (fields_reply [(''b'', ''1''), (''a'', ''2''), (''b'', ''3'')])
         = Inr [(''b'', ''3''), (''a'', ''2'')]"
    by (simp add: toRecords_def xread_reply_def log_reply_def entry_reply_def fields_reply_def
          parseKeyData_def parsePositionData_def arrInterfaceToMap_def json_Marshal_def)
  from computed same_map same_record show ?thesis by simp
qed

section \<open>Malformed field lists\<close>














section \<open>The cursor\<close>

lemma step_changes_lastID:
  assumes "step ev i = Steps i'" "lastID i' \<noteq> lastID i"
  shows "ev = PollSend"
proof (cases ev)
  case TickerFires
  with assms show ?thesis by (auto simp: step_def split: if_splits)
next
  case PollTick
  with assms show ?thesis
    by (auto simp: step_def poll_tick_def poll_return_def Let_def
             split: if_splits prod.splits sum.splits outcome.splits option.splits)
next
  case PollSend
  then show ?thesis by simp
next
  case PollDying
  with assms show ?thesis by (auto simp: step_def poll_dying_def poll_return_def split: if_splits)
next
  case FlushReceive
  with assms show ?thesis by (auto simp: step_def flush_receive_def split: if_splits list.splits)
next
  case FlushSend
  with assms show ?thesis
    by (auto simp: step_def flush_send_def split: if_splits list.splits flush_pc.splits)
next
  case FlushDying
  with assms show ?thesis by (auto simp: step_def flush_dying_def flush_return_def split: if_splits)
next
  case NextReceive
  with assms show ?thesis by (auto simp: step_def next_receive_def split: if_splits list.splits)
next
  case StopCall
  with assms show ?thesis
    by (auto simp: step_def Stop_def Let_def split: if_splits outcome.splits prod.splits option.splits)
next
  case ContextDone
  with assms show ?thesis by (auto simp: step_def)
qed

lemma poll_send_Steps:
  assumes "step PollSend i = Steps i'"
  shows "\<exists>records. poll_task i = PollHandoff records \<and> records \<noteq> []
           \<and> length (caches i) < caches_capacity
           \<and> i' = i\<lparr>caches := caches i @ [records], lastID := Position (last records),
                     poll_task := PollSelect\<rparr>"
  using assms by (auto simp: step_def poll_send_def split: poll_pc.splits if_splits)

text \<open>
  Claim C1, as amended. The cursor changes in no step but the handoff of a batch by the
  poll task. A handoff that succeeds has put a non-empty batch into the batch channel
  and leaves the cursor at the position of the last record of that batch; if the poll
  task leaves the handoff because the tomb is dying, cursor and channel are unchanged.
  The iterator compares no positions: the new cursor is greater than the old one
  whenever every record of the batch lies after the old cursor, which is what a read
  of the entries after the cursor returns.
\<close>

theorem cursor_follows_handoff:
  "(step ev i = Steps i' \<and> lastID i' \<noteq> lastID i \<longrightarrow> ev = PollSend)
   \<and> (step PollSend i = Steps i' \<longrightarrow>
        (\<exists>records. poll_task i = PollHandoff records \<and> records \<noteq> []
           \<and> caches i' = caches i @ [records]
           \<and> lastID i' = Position (last records)
           \<and> ((\<forall>r \<in> set records. position_less (lastID i) (Position r))
                \<longrightarrow> position_less (lastID i) (lastID i'))))
   \<and> (poll_task i = PollHandoff records \<and> step PollDying i = Steps i'
        \<longrightarrow> lastID i' = lastID i \<and> caches i' = caches i)"
proof (intro conjI impI)
  assume "step ev i = Steps i' \<and> lastID i' \<noteq> lastID i"
  then show "ev = PollSend" using step_changes_lastID by blast
next
  assume "step PollSend i = Steps i'"
  then obtain records where r: "poll_task i = PollHandoff records" "records \<noteq> []"
      "i' = i\<lparr>caches := caches i @ [records], lastID := Position (last records), poll_task := PollSelect\<rparr>"
    using poll_send_Steps by blast
  have "(\<forall>r \<in> set records. position_less (lastID i) (Position r))
          \<longrightarrow> position_less (lastID i) (lastID i')"
    using r(2) by (simp add: r(3))
  with r show "\<exists>records. poll_task i = PollHandoff records \<and> records \<noteq> []
           \<and> caches i' = caches i @ [records]
           \<and> lastID i' = Position (last records)
           \<and> ((\<forall>r \<in> set records. position_less (lastID i) (Position r))
                \<longrightarrow> position_less (lastID i) (lastID i'))"
    by simp
next
  assume "poll_task i = PollHandoff records \<and> step PollDying i = Steps i'"
  then show "lastID i' = lastID i" by (auto simp: step_def poll_dying_def poll_return_def split: if_splits)
next
  assume "poll_task i = PollHandoff records \<and> step PollDying i = Steps i'"
  then show "caches i' = caches i" by (auto simp: step_def poll_dying_def poll_return_def split: if_splits)
qed

text \<open>
  Claim C1 as stated fails: a poll cycle whose read returns an entry at \<open>1-0\<close> while
  the cursor is \<open>5-0\<close> hands the batch off and moves the cursor back to \<open>1-0\<close>.
\<close>

theorem cursor_moves_backward_counterexample:
  "run [PollTick, PollSend] stale_iterator
     = Steps (stale_iterator
         \<lparr>client := stale_conn\<lparr>sent := [((''XREAD'', [AStr ''COUNT'', AInt 1000, AStr ''STREAMS'',
                                                       AStr ''orders'', AStr ''5-0'']), True)]\<rparr>,
          lastID := ''1-0'',
          ticker_C := False,
          caches := [[entry_record (''orders'', ''1-0'', fields_reply [(''item'', ''tea'')])]]\<rparr>)
   \<and> lastID stale_iterator = ''5-0''
   \<and> \<not> position_less ''5-0'' ''1-0''
   \<and> position_less ''1-0'' ''5-0''"
  by (simp add: stale_iterator_def stale_conn_def orders_iterator_def step_def poll_tick_def poll_send_def
        conn_Do_def redis_Values_def toRecords_def xread_reply_def log_reply_def entry_reply_def
        fields_reply_def parseKeyData_def parsePositionData_def arrInterfaceToMap_def
        json_Marshal_def entry_record_def caches_capacity_def Let_def NewRecordCreate_def
        position_less_def parse_position_def parse_decimal_def digit_value_def)

theorem cursor_follows_handoff_witness:
  "step PollSend
      (orders_iterator\<lparr>poll_task := PollHandoff
          [entry_record (''orders'', ''1-1'', []), entry_record (''orders'', ''1-2'', [])]\<rparr>)
     = Steps (orders_iterator
         \<lparr>lastID := ''1-2'',
          caches := [[entry_record (''orders'', ''1-1'', []), entry_record (''orders'', ''1-2'', [])]]\<rparr>)
   \<and> position_less ''0-0'' ''1-1''
   \<and> position_less ''0-0'' ''1-2''
   \<and> step PollDying
        (orders_iterator\<lparr>tomb := Reason (Some (ErrMsg ''iterator stopped'')),
                         poll_task := PollHandoff [entry_record (''orders'', ''1-1'', [])]\<rparr>)
       = Steps (orders_iterator\<lparr>tomb := Reason (Some (ErrMsg ''iterator stopped'')),
                                poll_task := PollReturned, caches_closed := True\<rparr>)"
  using cursor_follows_handoff
     [of PollSend
         "orders_iterator\<lparr>poll_task := PollHandoff
            [entry_record (''orders'', ''1-1'', []), entry_record (''orders'', ''1-2'', [])]\<rparr>"
         "orders_iterator
           \<lparr>lastID := ''1-2'',
            caches := [[entry_record (''orders'', ''1-1'', []), entry_record (''orders'', ''1-2'', [])]]\<rparr>"
         "[entry_record (''orders'', ''1-1'', []), entry_record (''orders'', ''1-2'', [])]"]
  by (simp add: orders_iterator_def orders_conn_def step_def poll_send_def poll_dying_def
        poll_return_def caches_capacity_def entry_record_def NewRecordCreate_def Alive_def
        Kill_def tomb_Err_def
        position_less_def parse_position_def parse_decimal_def digit_value_def)

section \<open>The handoff of an empty batch\<close>

text \<open>
  Claim C8 does not hold of the code. A read that returns the log with no entries, or
  an empty array, is not an error and decodes, without error, into the empty batch; the
  handoff of the empty batch then evaluates \<open>records[len(records)-1]\<close> at index \<open>-1\<close>
  and panics.
\<close>

theorem empty_batch_handoff_panics:
  "toRecords (xread_reply [(''orders'', [])]) = Returns ([], None)
   \<and> run [TickerFires, PollTick, PollSend] trimmed_iterator = Crashes (IndexOutOfRange (- 1) 0)
   \<and> toRecords [] = Returns ([], None)
   \<and> run [TickerFires, PollTick, PollSend]
         (trimmed_iterator\<lparr>client := trimmed_conn\<lparr>replies := (\<lambda>n. Inr (RArr []))\<rparr>\<rparr>)
       = Crashes (IndexOutOfRange (- 1) 0)"
  by (simp add: trimmed_iterator_def trimmed_conn_def orders_iterator_def step_def poll_tick_def
        poll_send_def conn_Do_def redis_Values_def toRecords_def xread_reply_def log_reply_def
        parseKeyData_def caches_capacity_def Let_def)


section \<open>Stopping the iterator\<close>

text \<open>
  Claim C9, as amended. \<open>Stop\<close> on an iterator that holds its connection returns; it
  halts the ticker, kills the tomb with the reason \<open>iterator stopped\<close> (the reason of
  the tomb if it was alive), and closes the connection once. When the close succeeds
  the reference to the connection is cleared, and a second \<open>Stop\<close> panics on the nil
  reference. When the close fails the reference is kept, and a second \<open>Stop\<close> returns,
  with the ticker and the tomb unchanged and one more close of the connection.
\<close>

theorem Stop_once:
  assumes "\<not> client_nil i"
  shows "\<exists>r i'. Stop i = Returns (r, i')
           \<and> \<not> ticker_running i'
           \<and> tomb i' = Kill (tomb i) (Some (ErrMsg ''iterator stopped''))
           \<and> (Alive (tomb i) \<longrightarrow> tomb i' = Reason (Some (ErrMsg ''iterator stopped'')))
           \<and> \<not> Alive (tomb i')
           \<and> close_calls (client i') = Suc (close_calls (client i))
           \<and> (r = None) = (close_results (client i) (close_calls (client i)) = None)
           \<and> client_nil i' = (r = None)
           \<and> (r = None \<longrightarrow> Stop i' = Panics NilDereference)
           \<and> (r \<noteq> None \<longrightarrow>
                 (\<exists>r2 i2. Stop i' = Returns (r2, i2)
                    \<and> ticker_running i2 = ticker_running i'
                    \<and> tomb i2 = tomb i'
                    \<and> close_calls (client i2) = Suc (close_calls (client i'))))"
proof (cases "close_results (client i) (close_calls (client i))")
  case None
  with assms show ?thesis
    by (simp add: Stop_def conn_Close_def Let_def Alive_def Kill_def
             split: tomb.splits option.splits)
next
  case (Some e)
  with assms show ?thesis
    by (auto simp: Stop_def conn_Close_def Let_def Alive_def Kill_def
             split: tomb.splits option.splits prod.splits)
qed

text \<open>
  Claim C9 as stated fails: the second of two calls of \<open>Stop\<close> on the same iterator
  panics when the first call closed the connection.
\<close>

theorem Stop_twice_counterexample:
  "Stop orders_iterator
     = Returns (None, orders_iterator
         \<lparr>client := (client orders_iterator)\<lparr>close_calls := 1\<rparr>,
          client_nil := True,
          tomb := Reason (Some (ErrMsg ''iterator stopped'')),
          ticker_running := False\<rparr>)
   \<and> Stop (orders_iterator
         \<lparr>client := (client orders_iterator)\<lparr>close_calls := 1\<rparr>,
          client_nil := True,
          tomb := Reason (Some (ErrMsg ''iterator stopped'')),
          ticker_running := False\<rparr>)
     = Panics NilDereference"
  by (simp add: Stop_def conn_Close_def Let_def Kill_def orders_iterator_def orders_conn_def)

theorem Stop_once_witness:
  "\<not> client_nil orders_iterator
   \<and> Stop orders_iterator
     = Returns (None, orders_iterator
         \<lparr>client := (client orders_iterator)\<lparr>close_calls := 1\<rparr>,
          client_nil := True,
          tomb := Reason (Some (ErrMsg ''iterator stopped'')),
          ticker_running := False\<rparr>)
   \<and> Stop (orders_iterator\<lparr>client := (client orders_iterator)
                \<lparr>close_results := (\<lambda>n. Some (ErrMsg ''broken pipe''))\<rparr>\<rparr>)
     = Returns (Some (Wrap ''error closing the redis client'' (ErrMsg ''broken pipe'')),
         orders_iterator
         \<lparr>client := (client orders_iterator)
                \<lparr>close_results := (\<lambda>n. Some (ErrMsg ''broken pipe'')), close_calls := 1\<rparr>,
          tomb := Reason (Some (ErrMsg ''iterator stopped'')),
          ticker_running := False\<rparr>)"
  using Stop_once [of orders_iterator]
        Stop_once [of "orders_iterator\<lparr>client := (client orders_iterator)
                \<lparr>close_results := (\<lambda>n. Some (ErrMsg ''broken pipe''))\<rparr>\<rparr>"]
  by (simp add: Stop_def conn_Close_def Let_def Kill_def orders_iterator_def orders_conn_def)

section \<open>The type of the key\<close>

lemma redis_String_Inr_not_isl: "redis_String r = Inr t \<Longrightarrow> isl r = False"
  by (cases r) (simp_all add: redis_String_def)

lemma NewStreamIterator_cases:
  "NewStreamIterator c k iv pos =
     (case redis_String (replies c (length (sent c))) of
        Inl e \<Rightarrow> Returns (Inl (Wrap (''error fetching type of key('' @ k @ '')'') e),
                           c\<lparr>sent := sent c @ [((''TYPE'', [AStr k]), isl (replies c (length (sent c))) = False)]\<rparr>)
      | Inr t \<Rightarrow>
          if t \<noteq> keyTypeNone \<and> t \<noteq> keyTypeStream
          then Returns (Inl (ErrInvalidKeyType t),
                        c\<lparr>sent := sent c @ [((''TYPE'', [AStr k]), True)]\<rparr>)
          else if iv \<le> 0 then Panics NonPositiveInterval
          else Returns
                 (Inr \<lparr>key = k, client = c\<lparr>sent := sent c @ [((''TYPE'', [AStr k]), True)]\<rparr>,
                       client_nil = False, tomb = ErrStillAlive,
                       lastID = (if pos = [] then ''0-0'' else pos),
                       recordsPerCall = 1000, pollingInterval = iv,
                       ticker_running = True, ticker_C = False,
                       caches = [], caches_closed = False,
                       buffer = [], buffer_closed = False,
                       poll_task = PollSelect, flush_task = FlushSelect\<rparr>,
                  c\<lparr>sent := sent c @ [((''TYPE'', [AStr k]), True)]\<rparr>))"
  by (auto simp: NewStreamIterator_def conn_Do_def Let_def redis_String_Inr_not_isl
           split: sum.splits)

lemma validateKey_stream_cases:
  assumes "Mode (config d) = ModeStream"
  shows "validateKey d =
     (case redis_String (replies (dest_client d) (length (sent (dest_client d)))) of
        Inl e \<Rightarrow> (Some (Wrap (''error fetching type of key('' @ RedisKey (config d) @ '')'') e),
                   d\<lparr>dest_client := (dest_client d)
                       \<lparr>sent := sent (dest_client d)
                          @ [((''TYPE'', [AStr (RedisKey (config d))]),
                              isl (replies (dest_client d) (length (sent (dest_client d)))) = False)]\<rparr>\<rparr>)
      | Inr t \<Rightarrow>
          (if t \<noteq> keyTypeNone \<and> t \<noteq> keyTypeStream then Some (ErrInvalidKeyType t) else None,
           d\<lparr>dest_client := (dest_client d)
               \<lparr>sent := sent (dest_client d) @ [((''TYPE'', [AStr (RedisKey (config d))]), True)]\<rparr>\<rparr>))"
  using assms
  by (auto simp: validateKey_def conn_Do_def Let_def redis_String_Inr_not_isl ModeStream_def ModePubSub_def
           split: sum.splits)

text \<open>
  Claim C7. Constructing the stream iterator asks the type of the key before anything
  else: an iterator, with its two tasks, is returned only if the answer is \<open>none\<close> or
  \<open>stream\<close>, and then \<open>TYPE\<close> is the one command that was issued; for any other type
  the result is the invalid-type error and no iterator. Opening the destination in
  stream mode makes the same query and succeeds exactly for the same two answers.
\<close>

theorem stream_mode_checks_key_type:
  "(\<forall>i c'. NewStreamIterator c k iv pos = Returns (Inr i, c') \<longrightarrow>
       (redis_String (replies c (length (sent c))) = Inr keyTypeNone
        \<or> redis_String (replies c (length (sent c))) = Inr keyTypeStream)
       \<and> sent c' = sent c @ [((''TYPE'', [AStr k]), True)]
       \<and> client i = c' \<and> poll_task i = PollSelect \<and> flush_task i = FlushSelect)
   \<and> ((redis_String (replies c (length (sent c))) = Inr keyTypeNone
        \<or> redis_String (replies c (length (sent c))) = Inr keyTypeStream) \<and> 0 < iv \<longrightarrow>
       (\<exists>i c'. NewStreamIterator c k iv pos = Returns (Inr i, c')))
   \<and> (\<forall>t. redis_String (replies c (length (sent c))) = Inr t
           \<and> t \<noteq> keyTypeNone \<and> t \<noteq> keyTypeStream \<longrightarrow>
         NewStreamIterator c k iv pos
           = Returns (Inl (ErrInvalidKeyType t), c\<lparr>sent := sent c @ [((''TYPE'', [AStr k]), True)]\<rparr>))
   \<and> (Mode (config d) = ModeStream \<longrightarrow>
        (fst (Open d (Inr c)) = None) =
          (redis_String (replies c (length (sent c))) = Inr keyTypeNone
           \<or> redis_String (replies c (length (sent c))) = Inr keyTypeStream))
   \<and> (\<forall>t. Mode (config d) = ModeStream
           \<and> redis_String (replies c (length (sent c))) = Inr t
           \<and> t \<noteq> keyTypeNone \<and> t \<noteq> keyTypeStream \<longrightarrow>
         Open d (Inr c)
           = (Some (ErrInvalidKeyType t),
              d\<lparr>dest_client := c\<lparr>sent := sent c @ [((''TYPE'', [AStr (RedisKey (config d))]), True)]\<rparr>,
                dest_client_nil := False\<rparr>))"
proof (intro conjI allI impI)
  fix i c'
  assume a: "NewStreamIterator c k iv pos = Returns (Inr i, c')"
  then show "redis_String (replies c (length (sent c))) = Inr keyTypeNone
        \<or> redis_String (replies c (length (sent c))) = Inr keyTypeStream"
    by (auto simp: NewStreamIterator_cases split: sum.splits if_splits)
  from a show "sent c' = sent c @ [((''TYPE'', [AStr k]), True)]"
    by (auto simp: NewStreamIterator_cases split: sum.splits if_splits)
  from a show "client i = c'"
    by (auto simp: NewStreamIterator_cases split: sum.splits if_splits)
  from a show "poll_task i = PollSelect"
    by (auto simp: NewStreamIterator_cases split: sum.splits if_splits)
  from a show "flush_task i = FlushSelect"
    by (auto simp: NewStreamIterator_cases split: sum.splits if_splits)
next
  assume "(redis_String (replies c (length (sent c))) = Inr keyTypeNone
        \<or> redis_String (replies c (length (sent c))) = Inr keyTypeStream) \<and> 0 < iv"
  then show "\<exists>i c'. NewStreamIterator c k iv pos = Returns (Inr i, c')"
    by (auto simp: NewStreamIterator_cases)
next
  fix t
  assume "redis_String (replies c (length (sent c))) = Inr t \<and> t \<noteq> keyTypeNone \<and> t \<noteq> keyTypeStream"
  then show "NewStreamIterator c k iv pos
           = Returns (Inl (ErrInvalidKeyType t), c\<lparr>sent := sent c @ [((''TYPE'', [AStr k]), True)]\<rparr>)"
    by (simp add: NewStreamIterator_cases)
next
  assume m: "Mode (config d) = ModeStream"
  then have m': "Mode (config (d\<lparr>dest_client := c, dest_client_nil := False\<rparr>)) = ModeStream" by simp
  show "(fst (Open d (Inr c)) = None) =
          (redis_String (replies c (length (sent c))) = Inr keyTypeNone
           \<or> redis_String (replies c (length (sent c))) = Inr keyTypeStream)"
    by (auto simp: Open_def validateKey_stream_cases[OF m'] split: sum.splits)
next
  fix t
  assume a: "Mode (config d) = ModeStream
           \<and> redis_String (replies c (length (sent c))) = Inr t
           \<and> t \<noteq> keyTypeNone \<and> t \<noteq> keyTypeStream"
  then have m': "Mode (config (d\<lparr>dest_client := c, dest_client_nil := False\<rparr>)) = ModeStream" by simp
  from a show "Open d (Inr c)
           = (Some (ErrInvalidKeyType t),
              d\<lparr>dest_client := c\<lparr>sent := sent c @ [((''TYPE'', [AStr (RedisKey (config d))]), True)]\<rparr>,
                dest_client_nil := False\<rparr>)"
    by (simp add: Open_def validateKey_stream_cases[OF m'])
qed

theorem stream_mode_checks_key_type_witness:
  "NewStreamIterator orders_conn ''orders'' 1000000000 ''''
     = Returns (Inr orders_iterator, client orders_iterator)
   \<and> NewStreamIterator string_key_conn ''orders'' 1000000000 ''''
     = Returns (Inl (ErrInvalidKeyType ''string''),
                string_key_conn\<lparr>sent := [((''TYPE'', [AStr ''orders'']), True)]\<rparr>)
   \<and> Open orders_destination (Inr string_key_conn)
     = (Some (ErrInvalidKeyType ''string''),
        orders_destination
          \<lparr>dest_client := string_key_conn\<lparr>sent := [((''TYPE'', [AStr ''orders'']), True)]\<rparr>,
           dest_client_nil := False\<rparr>)
   \<and> fst (Open orders_destination (Inr orders_conn)) = None"
  using stream_mode_checks_key_type [of orders_conn "''orders''" 1000000000 "''''" orders_destination]
        stream_mode_checks_key_type [of string_key_conn "''orders''" 1000000000 "''''" orders_destination]
  by (simp add: NewStreamIterator_cases Open_def validateKey_def conn_Do_def Let_def
        orders_conn_def orders_iterator_def string_key_conn_def orders_destination_def
        redis_String_def keyTypeNone_def keyTypeStream_def ModeStream_def ModePubSub_def)

section \<open>Writing a batch\<close>

lemma doWithCtx_result:
  assumes "\<not> dest_client_nil d"
  shows "doWithCtx d cmd args =
           Returns (replies (dest_client d) (length (sent (dest_client d))),
                    d\<lparr>dest_client := (dest_client d)
                        \<lparr>sent := sent (dest_client d)
                           @ [((cmd, if with_context (dest_client d) then args else [AList args]),
                               isl (replies (dest_client d) (length (sent (dest_client d)))) = False)]\<rparr>\<rparr>)"
  using assms by (simp add: doWithCtx_def conn_Do_def Let_def)

lemma publish_command_after:
  "publish_command (d\<lparr>dest_client := (dest_client d)\<lparr>sent := s\<rparr>\<rparr>) r = publish_command d r"
  by (simp add: publish_command_def)

lemma xadd_command_after:
  "xadd_command un (d\<lparr>dest_client := c\<rparr>) r = xadd_command un d r"
  by (simp add: xadd_command_def)

text \<open>
  While the records apply, each loop issues the command of the record, which is
  answered without error, and goes on with the next record.
\<close>

lemma Write_pubsub_prefix:
  assumes "\<not> dest_client_nil d"
      and "k \<le> length rec"
      and "\<forall>j < k. Payload_After (rec ! j) \<noteq> NilData
                    \<and> isl (replies (dest_client d) (length (sent (dest_client d)) + j)) = False"
  shows "Write_pubsub i rec d =
           Write_pubsub (i + k) (drop k rec)
             (d\<lparr>dest_client := (dest_client d)
                 \<lparr>sent := sent (dest_client d)
                            @ map (\<lambda>r. (publish_command d r, True)) (take k rec)\<rparr>\<rparr>)"
  using assms
proof (induction rec arbitrary: i d k)
  case Nil
  then show ?case by simp
next
  case (Cons r rest)
  let ?c = "dest_client d"
  show ?case
  proof (cases k)
    case 0
    then show ?thesis by simp
  next
    case (Suc k')
    let ?d1 = "d\<lparr>dest_client := ?c\<lparr>sent := sent ?c @ [(publish_command d r, True)]\<rparr>\<rparr>"
    from Cons.prems(3) Suc have ok0: "Payload_After r \<noteq> NilData
                                      \<and> isl (replies ?c (length (sent ?c))) = False" by fastforce
    then obtain b x where bx: "Payload_After r = Data b" "replies ?c (length (sent ?c)) = Inr x"
      by (cases "Payload_After r"; cases "replies ?c (length (sent ?c))") simp_all
    have stepeq: "Write_pubsub i (r # rest) d = Write_pubsub (Suc i) rest ?d1"
      using bx by (simp add: Bytes_def doWithCtx_result[OF Cons.prems(1)] publish_command_def)
    have nil1: "\<not> dest_client_nil ?d1" using Cons.prems(1) by simp
    have k': "k' \<le> length rest" using Cons.prems(2) Suc by simp
    have ok1: "\<forall>j < k'. Payload_After (rest ! j) \<noteq> NilData
                 \<and> isl (replies (dest_client ?d1) (length (sent (dest_client ?d1)) + j)) = False"
    proof (intro allI impI)
      fix j assume "j < k'"
      then have "Suc j < k" using Suc by simp
      with Cons.prems(3) have "Payload_After ((r # rest) ! Suc j) \<noteq> NilData
                               \<and> isl (replies ?c (length (sent ?c) + Suc j)) = False" by blast
      then show "Payload_After (rest ! j) \<noteq> NilData
                 \<and> isl (replies (dest_client ?d1) (length (sent (dest_client ?d1)) + j)) = False" by simp
    qed
    have "Write_pubsub (Suc i) rest ?d1 =
            Write_pubsub (Suc i + k') (drop k' rest)
              (?d1\<lparr>dest_client := (dest_client ?d1)
                   \<lparr>sent := sent (dest_client ?d1)
                              @ map (\<lambda>r. (publish_command ?d1 r, True)) (take k' rest)\<rparr>\<rparr>)"
      using nil1 k' ok1 by (rule Cons.IH)
    with stepeq Suc show ?thesis by (simp add: publish_command_after)
  qed
qed

lemma Write_stream_prefix:
  assumes "\<not> dest_client_nil d"
      and "k \<le> length rec"
      and "\<forall>j < k. gives_args un (Payload_After (rec ! j))
                    \<and> isl (replies (dest_client d) (length (sent (dest_client d)) + j)) = False"
  shows "Write_stream un i rec d =
           Write_stream un (i + k) (drop k rec)
             (d\<lparr>dest_client := (dest_client d)
                 \<lparr>sent := sent (dest_client d)
                            @ map (\<lambda>r. (xadd_command un d r, True)) (take k rec)\<rparr>\<rparr>)"
  using assms
proof (induction rec arbitrary: i d k)
  case Nil
  then show ?case by simp
next
  case (Cons r rest)
  let ?c = "dest_client d"
  show ?case
  proof (cases k)
    case 0
    then show ?thesis by simp
  next
    case (Suc k')
    let ?d1 = "d\<lparr>dest_client := ?c\<lparr>sent := sent ?c @ [(xadd_command un d r, True)]\<rparr>\<rparr>"
    from Cons.prems(3) Suc have ok0: "gives_args un (Payload_After r)
                                      \<and> isl (replies ?c (length (sent ?c))) = False" by fastforce
    then obtain a x where ax: "payloadToStreamArgs un (Payload_After r) = Returns (Inr a)"
                              "replies ?c (length (sent ?c)) = Inr x"
      by (cases "replies ?c (length (sent ?c))")
         (auto simp: gives_args_def split: outcome.splits sum.splits)
    have stepeq: "Write_stream un i (r # rest) d = Write_stream un (Suc i) rest ?d1"
      using ax Cons.prems(1) by (simp add: conn_Do_def Let_def xadd_command_def)
    have nil1: "\<not> dest_client_nil ?d1" using Cons.prems(1) by simp
    have k': "k' \<le> length rest" using Cons.prems(2) Suc by simp
    have ok1: "\<forall>j < k'. gives_args un (Payload_After (rest ! j))
                 \<and> isl (replies (dest_client ?d1) (length (sent (dest_client ?d1)) + j)) = False"
    proof (intro allI impI)
      fix j assume "j < k'"
      then have "Suc j < k" using Suc by simp
      with Cons.prems(3) have "gives_args un (Payload_After ((r # rest) ! Suc j))
                               \<and> isl (replies ?c (length (sent ?c) + Suc j)) = False" by blast
      then show "gives_args un (Payload_After (rest ! j))
                 \<and> isl (replies (dest_client ?d1) (length (sent (dest_client ?d1)) + j)) = False" by simp
    qed
    have "Write_stream un (Suc i) rest ?d1 =
            Write_stream un (Suc i + k') (drop k' rest)
              (?d1\<lparr>dest_client := (dest_client ?d1)
                   \<lparr>sent := sent (dest_client ?d1)
                              @ map (\<lambda>r. (xadd_command un ?d1 r, True)) (take k' rest)\<rparr>\<rparr>)"
      using nil1 k' ok1 by (rule Cons.IH)
    with stepeq Suc show ?thesis by (simp add: xadd_command_after)
  qed
qed

lemma gives_args_not_nil: "gives_args un payload \<Longrightarrow> payload \<noteq> NilData"
  by (auto simp: gives_args_def payloadToStreamArgs_def Bytes_def)

lemma modes_differ: "ModePubSub \<noteq> ModeStream"
  by (simp add: ModePubSub_def ModeStream_def)


lemma Write_pubsub_head_nil:
  "Payload_After r = NilData \<Longrightarrow> Write_pubsub i (r # rest) d = Panics NilDereference"
  by (simp add: Bytes_def)

lemma Write_stream_head_nil:
  "Payload_After r = NilData \<Longrightarrow> Write_stream un i (r # rest) d = Panics NilDereference"
  by (simp add: payloadToStreamArgs_def Bytes_def)

lemma Write_pubsub_head_fails:
  assumes "\<not> dest_client_nil d"
      and "Payload_After r \<noteq> NilData"
      and "isl (replies (dest_client d) (length (sent (dest_client d))))"
  shows "\<exists>e. Write_pubsub i (r # rest) d =
           Returns (Some (i, e),
                    d\<lparr>dest_client := (dest_client d)
                        \<lparr>sent := sent (dest_client d) @ [(publish_command d r, False)]\<rparr>\<rparr>)"
proof -
  obtain b where b: "Payload_After r = Data b" using assms(2) by (cases "Payload_After r") simp_all
  obtain e where e: "replies (dest_client d) (length (sent (dest_client d))) = Inl e"
    using assms(3) by (cases "replies (dest_client d) (length (sent (dest_client d)))") simp_all
  show ?thesis
    using b e by (simp add: Bytes_def doWithCtx_result[OF assms(1)] publish_command_def)
qed

lemma Write_stream_head_fails:
  assumes "\<not> dest_client_nil d"
      and "Payload_After r \<noteq> NilData"
      and "\<not> (gives_args un (Payload_After r)
              \<and> isl (replies (dest_client d) (length (sent (dest_client d)))) = False)"
  shows "\<exists>e tail. Write_stream un i (r # rest) d =
           Returns (Some (i, e),
                    d\<lparr>dest_client := (dest_client d)\<lparr>sent := sent (dest_client d) @ tail\<rparr>\<rparr>)
           \<and> (tail = [] \<or> tail = [(xadd_command un d r, False)])"
proof -
  obtain b where b: "Payload_After r = Data b" using assms(2) by (cases "Payload_After r") simp_all
  show ?thesis
  proof (cases "gives_args un (Payload_After r)")
    case False
    then obtain e where e: "payloadToStreamArgs un (Payload_After r) = Returns (Inl e)"
      using b by (auto simp: gives_args_def payloadToStreamArgs_def Bytes_def Let_def
                       split: sum.splits if_splits)
    have "Write_stream un i (r # rest) d =
            Returns (Some (i, Wrap ''invalid payload'' e),
                     d\<lparr>dest_client := (dest_client d)\<lparr>sent := sent (dest_client d) @ []\<rparr>\<rparr>)"
      using e by simp
    then show ?thesis by blast
  next
    case True
    then obtain a where a: "payloadToStreamArgs un (Payload_After r) = Returns (Inr a)"
      by (auto simp: gives_args_def split: outcome.splits sum.splits)
    from True assms(3) obtain e where
      e: "replies (dest_client d) (length (sent (dest_client d))) = Inl e"
      by (cases "replies (dest_client d) (length (sent (dest_client d)))") simp_all
    have "Write_stream un i (r # rest) d =
            Returns (Some (i, Wrap (''error streaming message to key('' @ RedisKey (config d) @ '')'') e),
                     d\<lparr>dest_client := (dest_client d)
                         \<lparr>sent := sent (dest_client d) @ [(xadd_command un d r, False)]\<rparr>\<rparr>)"
      using a e assms(1) by (simp add: conn_Do_def Let_def xadd_command_def)
    then show ?thesis by blast
  qed
qed

text \<open>
  What \<open>Write\<close> does, for a destination in pubsub or stream mode with an open
  connection. If every record applies, it returns the length of the list and no error,
  having issued the command of each record, in order. If the record at index \<open>k\<close> is
  the first that does not apply and it has a payload, it returns \<open>k\<close> and an error,
  having issued the commands of the \<open>k\<close> records before it and at most the failed
  command of record \<open>k\<close>. If the first \<open>k\<close> records apply and the record at index
  \<open>k\<close> has no payload, it panics.
\<close>

lemma Write_outcome:
  assumes mode: "Mode (config d) = ModePubSub \<or> Mode (config d) = ModeStream"
      and client: "\<not> dest_client_nil d"
  shows "((\<forall>j < length rec. record_applies un d rec j) \<longrightarrow>
            (\<exists>d'. Write un d rec = Returns ((length rec, None), d')
               \<and> sent (dest_client d')
                   = sent (dest_client d) @ map (\<lambda>r. (write_command un d r, True)) rec))
       \<and> (\<forall>k. k < length rec \<and> (\<forall>j < k. record_applies un d rec j)
                \<and> \<not> record_applies un d rec k \<and> Payload_After (rec ! k) \<noteq> NilData \<longrightarrow>
            (\<exists>e d' tail. Write un d rec = Returns ((k, Some e), d')
               \<and> sent (dest_client d')
                   = sent (dest_client d)
                     @ map (\<lambda>r. (write_command un d r, True)) (take k rec) @ tail
               \<and> (tail = [] \<or> tail = [(write_command un d (rec ! k), False)])))
       \<and> (\<forall>k. k < length rec \<and> (\<forall>j < k. record_applies un d rec j)
                \<and> Payload_After (rec ! k) = NilData \<longrightarrow>
            Write un d rec = Panics NilDereference)"
proof (cases "Mode (config d) = ModePubSub")
  case True
  let ?c = "dest_client d"
  let ?after = "\<lambda>k. d\<lparr>dest_client := ?c\<lparr>sent := sent ?c @ map (\<lambda>r. (publish_command d r, True)) (take k rec)\<rparr>\<rparr>"
  have wc: "write_command un d = publish_command d"
    using True by (auto simp: write_command_def)
  have ra: "\<And>j. record_applies un d rec j
              = (Payload_After (rec ! j) \<noteq> NilData
                 \<and> isl (replies ?c (length (sent ?c) + j)) = False)"
    using True by (simp add: record_applies_def)
  have prefix: "\<And>k. k \<le> length rec \<Longrightarrow> \<forall>j < k. record_applies un d rec j \<Longrightarrow>
                  Write_pubsub 0 rec d = Write_pubsub k (drop k rec) (?after k)"
    using Write_pubsub_prefix[OF client, of _ rec 0] by (simp add: ra)
  show ?thesis
  proof (intro conjI allI impI)
    assume "\<forall>j < length rec. record_applies un d rec j"
    then have "Write_pubsub 0 rec d = Write_pubsub (length rec) (drop (length rec) rec) (?after (length rec))"
      by (intro prefix) simp_all
    then show "\<exists>d'. Write un d rec = Returns ((length rec, None), d')
               \<and> sent (dest_client d')
                   = sent (dest_client d) @ map (\<lambda>r. (write_command un d r, True)) rec"
      using True by (simp add: Write_def wc)
  next
    fix k
    assume a: "k < length rec \<and> (\<forall>j < k. record_applies un d rec j)
                \<and> \<not> record_applies un d rec k \<and> Payload_After (rec ! k) \<noteq> NilData"
    then have pre: "Write_pubsub 0 rec d = Write_pubsub k (drop k rec) (?after k)"
      by (intro prefix) simp_all
    have dk: "drop k rec = rec ! k # drop (Suc k) rec"
      using a by (simp add: Cons_nth_drop_Suc)
    have nilk: "\<not> dest_client_nil (?after k)" using client by simp
    have bad: "isl (replies (dest_client (?after k)) (length (sent (dest_client (?after k)))))"
      using a by (auto simp: ra)
    from Write_pubsub_head_fails[OF nilk _ bad, of "rec ! k" k "drop (Suc k) rec"] a
    obtain e where
      "Write_pubsub k (rec ! k # drop (Suc k) rec) (?after k) =
         Returns (Some (k, e),
                  (?after k)\<lparr>dest_client := (dest_client (?after k))
                      \<lparr>sent := sent (dest_client (?after k))
                                 @ [(publish_command (?after k) (rec ! k), False)]\<rparr>\<rparr>)"
      by blast
    with pre dk have "Write un d rec = Returns ((k, Some e),
                  (?after k)\<lparr>dest_client := (dest_client (?after k))
                      \<lparr>sent := sent (dest_client (?after k))
                                 @ [(publish_command (?after k) (rec ! k), False)]\<rparr>\<rparr>)"
      using True by (simp add: Write_def)
    then have "Write un d rec = Returns ((k, Some e),
                  (?after k)\<lparr>dest_client := (dest_client (?after k))
                      \<lparr>sent := sent (dest_client (?after k))
                                 @ [(publish_command (?after k) (rec ! k), False)]\<rparr>\<rparr>)
             \<and> sent (dest_client ((?after k)\<lparr>dest_client := (dest_client (?after k))
                      \<lparr>sent := sent (dest_client (?after k))
                                 @ [(publish_command (?after k) (rec ! k), False)]\<rparr>\<rparr>))
                 = sent (dest_client d)
                     @ map (\<lambda>r. (write_command un d r, True)) (take k rec)
                     @ [(write_command un d (rec ! k), False)]"
      by (simp add: wc publish_command_after)
    then show "\<exists>e d' tail. Write un d rec = Returns ((k, Some e), d')
               \<and> sent (dest_client d')
                   = sent (dest_client d)
                     @ map (\<lambda>r. (write_command un d r, True)) (take k rec) @ tail
               \<and> (tail = [] \<or> tail = [(write_command un d (rec ! k), False)])"
      by blast
  next
    fix k
    assume a: "k < length rec \<and> (\<forall>j < k. record_applies un d rec j)
                \<and> Payload_After (rec ! k) = NilData"
    then have pre: "Write_pubsub 0 rec d = Write_pubsub k (drop k rec) (?after k)"
      by (intro prefix) simp_all
    have dk: "drop k rec = rec ! k # drop (Suc k) rec"
      using a by (simp add: Cons_nth_drop_Suc)
    have "Write_pubsub k (rec ! k # drop (Suc k) rec) (?after k) = Panics NilDereference"
      using a by (intro Write_pubsub_head_nil) simp
    with pre dk show "Write un d rec = Panics NilDereference"
      using True by (simp add: Write_def)
  qed
next
  case False
  with mode have st: "Mode (config d) = ModeStream" by simp
  let ?c = "dest_client d"
  let ?after = "\<lambda>k. d\<lparr>dest_client := ?c\<lparr>sent := sent ?c @ map (\<lambda>r. (xadd_command un d r, True)) (take k rec)\<rparr>\<rparr>"
  have wc: "write_command un d = xadd_command un d"
    using False by (auto simp: write_command_def)
  have ra: "\<And>j. record_applies un d rec j
              = (gives_args un (Payload_After (rec ! j))
                 \<and> isl (replies ?c (length (sent ?c) + j)) = False)"
    using False gives_args_not_nil by (auto simp: record_applies_def)
  have prefix: "\<And>k. k \<le> length rec \<Longrightarrow> \<forall>j < k. record_applies un d rec j \<Longrightarrow>
                  Write_stream un 0 rec d = Write_stream un k (drop k rec) (?after k)"
    using Write_stream_prefix[OF client, of _ rec un 0] by (simp add: ra)
  show ?thesis
  proof (intro conjI allI impI)
    assume "\<forall>j < length rec. record_applies un d rec j"
    then have "Write_stream un 0 rec d
                 = Write_stream un (length rec) (drop (length rec) rec) (?after (length rec))"
      by (intro prefix) simp_all
    then show "\<exists>d'. Write un d rec = Returns ((length rec, None), d')
               \<and> sent (dest_client d')
                   = sent (dest_client d) @ map (\<lambda>r. (write_command un d r, True)) rec"
      using False st by (simp add: Write_def wc)
  next
    fix k
    assume a: "k < length rec \<and> (\<forall>j < k. record_applies un d rec j)
                \<and> \<not> record_applies un d rec k \<and> Payload_After (rec ! k) \<noteq> NilData"
    then have pre: "Write_stream un 0 rec d = Write_stream un k (drop k rec) (?after k)"
      by (intro prefix) simp_all
    have dk: "drop k rec = rec ! k # drop (Suc k) rec"
      using a by (simp add: Cons_nth_drop_Suc)
    have nilk: "\<not> dest_client_nil (?after k)" using client by simp
    have pl: "Payload_After (rec ! k) \<noteq> NilData" using a by simp
    have bad: "\<not> (gives_args un (Payload_After (rec ! k))
                  \<and> isl (replies (dest_client (?after k)) (length (sent (dest_client (?after k))))) = False)"
      using a by (auto simp: ra)
    from Write_stream_head_fails[OF nilk pl bad, of k "drop (Suc k) rec"]
    obtain e tail where
      w: "Write_stream un k (rec ! k # drop (Suc k) rec) (?after k) =
           Returns (Some (k, e),
                    (?after k)\<lparr>dest_client := (dest_client (?after k))
                        \<lparr>sent := sent (dest_client (?after k)) @ tail\<rparr>\<rparr>)"
      and t: "tail = [] \<or> tail = [(xadd_command un (?after k) (rec ! k), False)]"
      by blast
    from pre dk w have "Write un d rec = Returns ((k, Some e),
                    (?after k)\<lparr>dest_client := (dest_client (?after k))
                        \<lparr>sent := sent (dest_client (?after k)) @ tail\<rparr>\<rparr>)"
      using False st by (simp add: Write_def)
    moreover have "sent (dest_client ((?after k)\<lparr>dest_client := (dest_client (?after k))
                        \<lparr>sent := sent (dest_client (?after k)) @ tail\<rparr>\<rparr>))
                 = sent (dest_client d)
                     @ map (\<lambda>r. (write_command un d r, True)) (take k rec) @ tail"
      by (simp add: wc)
    moreover have "tail = [] \<or> tail = [(write_command un d (rec ! k), False)]"
      using t by (simp add: wc xadd_command_after)
    ultimately show "\<exists>e d' tail. Write un d rec = Returns ((k, Some e), d')
               \<and> sent (dest_client d')
                   = sent (dest_client d)
                     @ map (\<lambda>r. (write_command un d r, True)) (take k rec) @ tail
               \<and> (tail = [] \<or> tail = [(write_command un d (rec ! k), False)])"
      by blast
  next
    fix k
    assume a: "k < length rec \<and> (\<forall>j < k. record_applies un d rec j)
                \<and> Payload_After (rec ! k) = NilData"
    then have pre: "Write_stream un 0 rec d = Write_stream un k (drop k rec) (?after k)"
      by (intro prefix) simp_all
    have dk: "drop k rec = rec ! k # drop (Suc k) rec"
      using a by (simp add: Cons_nth_drop_Suc)
    have "Write_stream un k (rec ! k # drop (Suc k) rec) (?after k) = Panics NilDereference"
      using a by (intro Write_stream_head_nil) simp
    with pre dk show "Write un d rec = Panics NilDereference"
      using False st by (simp add: Write_def)
  qed
qed

text \<open>
  Claim C3 does not hold of the code. A record without an after-payload, such as a
  delete record, is a record the destination can be given; for it \<open>Write\<close> returns no
  count and no error: evaluating \<open>r.Payload.After.Bytes()\<close> in pubsub mode, and
  \<open>payload.Bytes()\<close> in stream mode, panics on the nil payload, after the commands of
  the records before it were issued and before any command is issued for it.
\<close>

theorem Write_nil_payload_panics:
  "Write un feed_destination [raw_record ''a'', delete_record, raw_record ''c''] = Panics NilDereference
   \<and> Write un feed_destination [delete_record] = Panics NilDereference
   \<and> Write un log_destination [delete_record] = Panics NilDereference
   \<and> Write un feed_destination [raw_record ''a'']
       = Returns ((1, None),
           feed_destination\<lparr>dest_client := flaky_conn
             \<lparr>sent := [((''PUBLISH'', [AStr ''orders'', AStr ''a'']), True)]\<rparr>\<rparr>)"
  by (simp add: Write_def feed_destination_def log_destination_def flaky_conn_def raw_record_def
        delete_record_def NewRecordCreate_def doWithCtx_def conn_Do_def Let_def Bytes_def
        payloadToStreamArgs_def ModePubSub_def ModeStream_def)

section \<open>Occupancy of the channels\<close>

lemma step_within_capacity:
  assumes "within_capacity i" "step ev i = Steps i'"
  shows "within_capacity i'"
proof (cases ev)
  case TickerFires
  with assms show ?thesis by (auto simp: step_def within_capacity_def split: if_splits)
next
  case PollTick
  with assms show ?thesis
    by (auto simp: step_def within_capacity_def poll_tick_def poll_return_def Let_def
             split: if_splits prod.splits sum.splits outcome.splits option.splits)
next
  case PollSend
  with assms show ?thesis
    by (auto simp: step_def within_capacity_def poll_send_def caches_capacity_def
             split: poll_pc.splits if_splits)
next
  case PollDying
  with assms show ?thesis
    by (auto simp: step_def within_capacity_def poll_dying_def poll_return_def split: if_splits)
next
  case FlushReceive
  with assms show ?thesis
    by (auto simp: step_def within_capacity_def flush_receive_def split: if_splits list.splits)
next
  case FlushSend
  with assms show ?thesis
    by (auto simp: step_def within_capacity_def flush_send_def buffer_capacity_def
             split: if_splits list.splits flush_pc.splits)
next
  case FlushDying
  with assms show ?thesis
    by (auto simp: step_def within_capacity_def flush_dying_def flush_return_def split: if_splits)
next
  case NextReceive
  with assms show ?thesis
    by (auto simp: step_def within_capacity_def next_receive_def split: if_splits list.splits)
next
  case StopCall
  with assms show ?thesis
    by (auto simp: step_def within_capacity_def Stop_def Let_def
             split: if_splits outcome.splits prod.splits option.splits)
next
  case ContextDone
  with assms show ?thesis by (auto simp: step_def within_capacity_def)
qed

lemma run_within_capacity:
  "within_capacity i \<Longrightarrow> run evs i = Steps i' \<Longrightarrow> within_capacity i'"
proof (induction evs arbitrary: i)
  case Nil
  then show ?case by simp
next
  case (Cons ev evs)
  from Cons.prems(2) obtain i1 where s: "step ev i = Steps i1" and r: "run evs i1 = Steps i'"
    by (cases "step ev i") simp_all
  from Cons.prems(1) s have "within_capacity i1" by (rule step_within_capacity)
  then show ?case using r by (rule Cons.IH)
qed

lemma NewStreamIterator_within_capacity:
  "NewStreamIterator c k iv pos = Returns (Inr i0, c') \<Longrightarrow> within_capacity i0"
  by (auto simp: NewStreamIterator_def conn_Do_def Let_def within_capacity_def
           split: sum.splits if_splits)

lemma holds_at_most_one: "length (poll_holds i) \<le> 1 \<and> length (flush_holds i) \<le> 1"
  by (simp add: poll_holds_def flush_holds_def split: poll_pc.splits flush_pc.splits)

text \<open>
  Claim C6, as amended. In every execution of an iterator that was constructed, whatever
  the schedule of the tasks, of the consumer and of the store's replies, the batch
  channel holds at most one batch and the record channel at most one record. The
  decoded batches not yet delivered are therefore at most three, however long the log
  is: the one being flushed, the one in the batch channel, and the one the poll task
  holds while it waits at the handoff.
\<close>

theorem channels_within_capacity:
  assumes "NewStreamIterator c k iv pos = Returns (Inr i0, c')"
      and "run evs i0 = Steps i"
  shows "length (caches i) \<le> 1 \<and> length (buffer i) \<le> 1
         \<and> length (flush_holds i) \<le> 1 \<and> length (poll_holds i) \<le> 1
         \<and> length (in_flight i) \<le> 3"
proof -
  have "within_capacity i0" using assms(1) by (rule NewStreamIterator_within_capacity)
  then have "within_capacity i" using assms(2) by (rule run_within_capacity)
  then have ch: "length (caches i) \<le> 1" "length (buffer i) \<le> 1"
    by (simp_all add: within_capacity_def caches_capacity_def buffer_capacity_def)
  moreover have h: "length (poll_holds i) \<le> 1" "length (flush_holds i) \<le> 1"
    using holds_at_most_one by simp_all
  moreover have "length (in_flight i) \<le> 3"
    using ch(1) h by (simp add: in_flight_def)
  ultimately show ?thesis by simp
qed

text \<open>
  Claim C6 as stated fails in its last part: after three ticks without a pull of the
  consumer there are three decoded batches that are not delivered, one more than a
  pending batch and a batch in flush, beside the record in the record channel.
\<close>

theorem three_batches_in_flight_counterexample:
  "map_step_result in_flight (run three_ticks orders_iterator)
     = Steps [[entry_record (''orders'', ''1-2'', fields_reply [(''item'', ''milk'')])],
              [entry_record (''orders'', ''1-3'', fields_reply [(''item'', ''rice'')])],
              [entry_record (''orders'', ''1-4'', fields_reply [(''item'', ''salt'')])]]
   \<and> map_step_result flush_holds (run three_ticks orders_iterator)
     = Steps [[entry_record (''orders'', ''1-2'', fields_reply [(''item'', ''milk'')])]]
   \<and> map_step_result caches (run three_ticks orders_iterator)
     = Steps [[entry_record (''orders'', ''1-3'', fields_reply [(''item'', ''rice'')])]]
   \<and> map_step_result poll_holds (run three_ticks orders_iterator)
     = Steps [[entry_record (''orders'', ''1-4'', fields_reply [(''item'', ''salt'')])]]
   \<and> map_step_result buffer (run three_ticks orders_iterator)
     = Steps [entry_record (''orders'', ''1-1'', fields_reply [(''item'', ''tea'')])]"
  by (simp add: three_ticks_def orders_iterator_def orders_conn_def step_def poll_tick_def
        poll_send_def flush_receive_def flush_send_def flush_range_def conn_Do_def
        redis_Values_def toRecords_def xread_reply_def log_reply_def entry_reply_def
        fields_reply_def parseKeyData_def parsePositionData_def arrInterfaceToMap_def
        json_Marshal_def entry_record_def NewRecordCreate_def caches_capacity_def
        buffer_capacity_def Let_def in_flight_def poll_holds_def flush_holds_def)

theorem channels_within_capacity_witness:
  "NewStreamIterator orders_conn ''orders'' 1000000000 ''''
     = Returns (Inr orders_iterator, client orders_iterator)
   \<and> map_step_result (length \<circ> caches) (run three_ticks orders_iterator) = Steps 1
   \<and> map_step_result (length \<circ> buffer) (run three_ticks orders_iterator) = Steps 1
   \<and> map_step_result (length \<circ> in_flight) (run three_ticks orders_iterator) = Steps 3"
  using channels_within_capacity
    [of orders_conn "''orders''" 1000000000 "''''" orders_iterator "client orders_iterator" three_ticks]
  by (simp add: NewStreamIterator_def keyTypeNone_def keyTypeStream_def redis_String_def
        three_ticks_def orders_iterator_def orders_conn_def step_def poll_tick_def
        poll_send_def flush_receive_def flush_send_def flush_range_def conn_Do_def
        redis_Values_def toRecords_def xread_reply_def log_reply_def entry_reply_def
        fields_reply_def parseKeyData_def parsePositionData_def arrInterfaceToMap_def
        json_Marshal_def entry_record_def NewRecordCreate_def caches_capacity_def
        buffer_capacity_def Let_def in_flight_def poll_holds_def flush_holds_def)

end
